theory Spec2Isabelle
  imports Main
begin

section \<open>Data2Form: the data model\<close>

text \<open>
  The embedding follows \<^verbatim>\<open>src/src/data2form.js\<close>. The closure \<^verbatim>\<open>Data2Form(form_element)\<close>
  owns three pieces of state (\<^verbatim>\<open>settings\<close>, \<^verbatim>\<open>callbacks\<close>, \<^verbatim>\<open>hasJQuery\<close>) and works on the
  DOM below \<^verbatim>\<open>form_element\<close>. All of them are explicit arguments here.

  A control is an element below the form. Its properties are plain slots, as the library
  reads and writes them: the \<^verbatim>\<open>name\<close> attribute (\<open>None\<close> when the element has none),
  \<^verbatim>\<open>type\<close>, \<^verbatim>\<open>value\<close>, \<^verbatim>\<open>checked\<close> and, for a select element, the values of its
  \<^verbatim>\<open>options\<close>. An element without a \<^verbatim>\<open>type\<close> property is given a type that is not among
  the supported ones. The form is the list of the elements below \<^verbatim>\<open>form_element\<close> in
  document order; an element is identified by its position in that list (the model's
  stand-in for the element reference that JavaScript passes around).
\<close>

record control =
  cname :: "string option"
  ctype :: string
  cvalue :: string
  cchecked :: bool
  coptions :: "string list"

text \<open>\<^verbatim>\<open>field.name\<close> of a form control: the attribute, or the empty string without one.\<close>

definition name_prop :: "control \<Rightarrow> string" where
  "name_prop c = (case cname c of None \<Rightarrow> [] | Some n \<Rightarrow> n)"

text \<open>
  Values that the code throws, catches, stores in \<^verbatim>\<open>result.errors\<close> and hands to
  \<^verbatim>\<open>console.error\<close>: the library itself throws strings (template literals); evaluating an
  undeclared identifier throws a \<^verbatim>\<open>ReferenceError\<close>; \<^verbatim>\<open>querySelectorAll\<close> throws a
  \<^verbatim>\<open>SyntaxError\<close> for a selector it cannot parse; calling what is not a function throws a
  \<^verbatim>\<open>TypeError\<close>; user callbacks may throw any of them, or an \<^verbatim>\<open>Error\<close> object. The text
  that an error object carries is the engine's; only its kind matters below.
\<close>

datatype jsval =
  JStr string | JReferenceError string | JError string | JSyntaxError string | JTypeError string

text \<open>
  User code that the library calls: the effect on the controls, and the value thrown, if any.
  A callback registered with \<^verbatim>\<open>callbackAfterFill\<close> receives the primary control and the raw
  value. The jQuery hook stands for \<^verbatim>\<open>$(field).trigger('change')\<close>, that is for the change
  handlers bound to the control. User code is modelled as not re-entering the filler (it
  calls none of \<^verbatim>\<open>fill\<close>, \<^verbatim>\<open>setting\<close>, \<^verbatim>\<open>callbackAfterFill\<close>) and as not moving controls.
\<close>

type_synonym handler = "nat \<Rightarrow> control list \<Rightarrow> control list \<times> jsval option"
type_synonym callback = "nat \<Rightarrow> string \<Rightarrow> control list \<Rightarrow> control list \<times> jsval option"
type_synonym callbacks = "string \<rightharpoonup> callback"
type_synonym settings = "string \<rightharpoonup> bool"

text \<open>
  What the platform makes of a selector text: it cannot parse it (and throws), or it reads
  it as a test on the elements of the form. The selector engine is the browser's, not the
  library's, so it is a parameter of the model; the library's part is the selector text that
  it builds from the key.
\<close>

type_synonym matcher = "control list \<Rightarrow> nat \<Rightarrow> bool"

text \<open>
  The hosting environment: \<^verbatim>\<open>jquery\<close> is \<^verbatim>\<open>None\<close> when \<^verbatim>\<open>window.jQuery\<close> is undefined
  (\<^verbatim>\<open>hasJQuery\<close> is false); \<^verbatim>\<open>global_key\<close> is the text of a global variable \<^verbatim>\<open>key\<close>, if the
  page defines one (\<^verbatim>\<open>fillSelect\<close> reads an identifier \<^verbatim>\<open>key\<close> that is not in its scope);
  \<^verbatim>\<open>selector_engine\<close> is the platform's reading of a selector text.
\<close>

record env =
  jquery :: "handler option"
  global_key :: "string option"
  selector_engine :: "string \<Rightarrow> jsval + matcher"

text \<open>
  What a call of \<^verbatim>\<open>fill\<close> can change outside its result: the controls, the lines written
  with \<^verbatim>\<open>console.error\<close>, and (a ghost trace) the callback invocations made, each with the
  type it was registered for, the control it received and the value it received.
\<close>

record world =
  form :: "control list"
  console :: "jsval list"
  calls :: "(string \<times> nat \<times> string) list"

record result =
  success :: bool
  errors :: "jsval list"

text \<open>
  A property that \<^verbatim>\<open>for (let key in data)\<close> enumerates: an own property of \<^verbatim>\<open>data\<close> or an
  inherited one, with its key and its (string) value.
\<close>

datatype property = Own string string | Inherited string string

fun pkey :: "property \<Rightarrow> string" where
  "pkey (Own key v) = key"
| "pkey (Inherited key v) = key"

fun pvalue :: "property \<Rightarrow> string" where
  "pvalue (Own key v) = v"
| "pvalue (Inherited key v) = v"

fun is_own :: "property \<Rightarrow> bool" where
  "is_own (Own key v) = True"
| "is_own (Inherited key v) = False"

text \<open>
  The \<^verbatim>\<open>data\<close> object: its enumerable properties in enumeration order, and whether
  \<^verbatim>\<open>Object.prototype\<close> is on its prototype chain (it is for an object literal, it is not for
  \<^verbatim>\<open>Object.create(null)\<close>).
\<close>

record data_object =
  props :: "property list"
  object_prototype :: bool

datatype input = NotExists | Exists string "nat list"

section \<open>The closure's state\<close>

definition default_settings :: settings where
  "default_settings =
     [''throwOnMissingField'' \<mapsto> True,
      ''throwOnUnsupportedType'' \<mapsto> True,
      ''throwOnFileError'' \<mapsto> True,
      ''throwOnInvalidSelectOption'' \<mapsto> True]"

definition supportedTypes :: "string list" where
  "supportedTypes =
     [''checkbox'', ''color'', ''date'', ''email'', ''file'', ''hidden'', ''month'',
      ''number'', ''password'', ''radio'', ''range'', ''search'', ''tel'', ''text'',
      ''time'', ''url'', ''week'', ''select-one'', ''datetime-local'']"

text \<open>\<^verbatim>\<open>if (settings.k)\<close>: the entry is present and true.\<close>

definition enabled :: "settings \<Rightarrow> string \<Rightarrow> bool" where
  "enabled st k = (st k = Some True)"

text \<open>The text \<^verbatim>\<open>'s'\<close> of a template literal: \<open>s\<close> between two apostrophes.\<close>

definition quoted :: "string \<Rightarrow> string" where
  "quoted s = CHR 0x27 # s @ [CHR 0x27]"

section \<open>Field resolution\<close>

text \<open>
  The selector text of \<^verbatim>\<open>getInputField\<close>: the key is spliced, as it is, between
  \<^verbatim>\<open>[name="\<close> and \<^verbatim>\<open>"]\<close> (\<open>CHR 0x22\<close> is the double quote).
\<close>

definition selector :: "string \<Rightarrow> string" where
  "selector name = ''[name='' @ [CHR 0x22] @ name @ [CHR 0x22] @ '']''"

text \<open>
  \<^verbatim>\<open>form_element.querySelectorAll(selector)\<close>: the exception of the engine, or the positions
  of the elements that the selector matches, in document order.
\<close>

definition querySelectorAll :: "env \<Rightarrow> control list \<Rightarrow> string \<Rightarrow> jsval + nat list" where
  "querySelectorAll e f name =
     (case selector_engine e (selector name) of
        Inl err \<Rightarrow> Inl err
      | Inr m \<Rightarrow> Inr (filter (m f) [0..<length f]))"

definition getInputField :: "env \<Rightarrow> control list \<Rightarrow> string \<Rightarrow> jsval + input" where
  "getInputField e f name =
     (case querySelectorAll e f name of
        Inl err \<Rightarrow> Inl err
      | Inr [] \<Rightarrow> Inr NotExists
      | Inr (i # rest) \<Rightarrow> Inr (Exists (ctype (f ! i)) (i # rest)))"

section \<open>Fill strategies\<close>

definition fillFile :: "settings \<Rightarrow> control \<Rightarrow> string \<Rightarrow> jsval + bool" where
  "fillFile st field v =
     (if v \<noteq> [] then
        (if enabled st ''throwOnFileError''
         then Inl (JStr (''Field '' @ quoted (name_prop field) @ '' only supports empty string''))
         else Inr False)
      else Inr True)"

text \<open>\<^verbatim>\<open>values.split(',')\<close>: the pieces between the commas; never the empty list.\<close>

fun split_comma :: "string \<Rightarrow> string list" where
  "split_comma [] = [[]]"
| "split_comma (c # cs) =
     (if c = CHR '','' then [] # split_comma cs
      else (case split_comma cs of
              [] \<Rightarrow> [[c]]
            | w # ws \<Rightarrow> (c # w) # ws))"

fun fillCheckbox_loop ::
  "string list \<Rightarrow> nat list \<Rightarrow> bool \<times> control list \<Rightarrow> bool \<times> control list" where
  "fillCheckbox_loop vals [] (filledAny, f) = (filledAny, f)"
| "fillCheckbox_loop vals (i # rest) (filledAny, f) =
     (let checked = (cvalue (f ! i) \<in> set vals)
      in fillCheckbox_loop vals rest
           (if checked then True else filledAny, f[i := (f ! i)\<lparr>cchecked := checked\<rparr>]))"

definition fillCheckbox :: "control list \<Rightarrow> nat list \<Rightarrow> string \<Rightarrow> bool \<times> control list" where
  "fillCheckbox f nodes v = fillCheckbox_loop (split_comma v) nodes (False, f)"

fun fillRadio_loop ::
  "string \<Rightarrow> nat list \<Rightarrow> bool \<times> control list \<Rightarrow> bool \<times> control list" where
  "fillRadio_loop v [] (filledAny, f) = (filledAny, f)"
| "fillRadio_loop v (i # rest) (filledAny, f) =
     (let checked = (v = cvalue (f ! i))
      in fillRadio_loop v rest
           (if checked then True else filledAny, f[i := (f ! i)\<lparr>cchecked := checked\<rparr>]))"

definition fillRadio :: "control list \<Rightarrow> nat list \<Rightarrow> string \<Rightarrow> bool \<times> control list" where
  "fillRadio f nodes v = fillRadio_loop v nodes (False, f)"

definition fillField :: "control list \<Rightarrow> nat \<Rightarrow> string \<Rightarrow> bool \<times> control list" where
  "fillField f i v = (True, f[i := (f ! i)\<lparr>cvalue := v\<rparr>])"

text \<open>
  \<^verbatim>\<open>fillSelect\<close> builds its message from \<^verbatim>\<open>${key}\<close>, and no \<^verbatim>\<open>key\<close> is in scope of the
  function (the loop variable of \<^verbatim>\<open>fill\<close> is block scoped): the lookup goes to the global
  scope, and throws a \<^verbatim>\<open>ReferenceError\<close> when nothing is there. After the assignment the
  jQuery hook runs when jQuery is present; what it throws leaves \<^verbatim>\<open>fillSelect\<close> too.
\<close>

definition fillSelect ::
  "env \<Rightarrow> settings \<Rightarrow> control list \<Rightarrow> nat \<Rightarrow> string \<Rightarrow> (jsval + bool) \<times> control list" where
  "fillSelect e st f i v =
     (let optionExists = (v \<in> set (coptions (f ! i))) in
      if \<not> optionExists then
        (if enabled st ''throwOnInvalidSelectOption'' then
           (case global_key e of
              None \<Rightarrow> (Inl (JReferenceError ''key is not defined''), f)
            | Some k \<Rightarrow>
                (Inl (JStr (''Field '' @ quoted k @ '' does not have select option value ''
                             @ quoted v)), f))
         else (Inr False, f))
      else
        (let f1 = f[i := (f ! i)\<lparr>cvalue := v\<rparr>] in
         case jquery e of
           None \<Rightarrow> (Inr True, f1)
         | Some h \<Rightarrow>
             (case h i f1 of
                (f2, None) \<Rightarrow> (Inr True, f2)
              | (f2, Some err) \<Rightarrow> (Inl err, f2))))"

section \<open>Fill orchestration\<close>

text \<open>The \<^verbatim>\<open>switch (input.type)\<close> of \<^verbatim>\<open>fill\<close>; \<^verbatim>\<open>input.nodes[0]\<close> is the head of the nodes.\<close>

definition dispatch ::
  "env \<Rightarrow> settings \<Rightarrow> control list \<Rightarrow> string \<Rightarrow> nat list \<Rightarrow> string
     \<Rightarrow> (jsval + bool) \<times> control list" where
  "dispatch e st f ty nodes v =
     (if ty = ''file'' then (fillFile st (f ! hd nodes) v, f)
      else if ty = ''checkbox'' then
        (case fillCheckbox f nodes v of (filled, f') \<Rightarrow> (Inr filled, f'))
      else if ty = ''radio'' then
        (case fillRadio f nodes v of (filled, f') \<Rightarrow> (Inr filled, f'))
      else if ty = ''select-one'' then fillSelect e st f (hd nodes) v
      else (case fillField f (hd nodes) v of (filled, f') \<Rightarrow> (Inr filled, f')))"

text \<open>
  The body of the \<^verbatim>\<open>try\<close> block: the strategy, then the callback registered for the type
  when the strategy reports \<^verbatim>\<open>filled\<close>. The first component is the value that leaves the
  block by \<^verbatim>\<open>throw\<close>, if any.
\<close>

definition try_body ::
  "env \<Rightarrow> settings \<Rightarrow> callbacks \<Rightarrow> string \<Rightarrow> nat list \<Rightarrow> string \<Rightarrow> world
     \<Rightarrow> jsval option \<times> world" where
  "try_body e st cbs ty nodes v w =
     (case dispatch e st (form w) ty nodes v of
        (Inl err, f1) \<Rightarrow> (Some err, w\<lparr>form := f1\<rparr>)
      | (Inr filled, f1) \<Rightarrow>
          (case (if filled then cbs ty else None) of
             None \<Rightarrow> (None, w\<lparr>form := f1\<rparr>)
           | Some cb \<Rightarrow>
               (case cb (hd nodes) v f1 of
                  (f2, thrown) \<Rightarrow>
                    (thrown, w\<lparr>form := f2, calls := calls w @ [(ty, hd nodes, v)]\<rparr>))))"

text \<open>
  \<^verbatim>\<open>result.success = false; result.errors.push(error)\<close>, and \<^verbatim>\<open>console.error(error)\<close> when
  \<open>surface\<close> holds.
\<close>

definition record_error :: "bool \<Rightarrow> jsval \<Rightarrow> result \<times> world \<Rightarrow> result \<times> world" where
  "record_error surface err s =
     (case s of (res, w) \<Rightarrow>
        (res\<lparr>success := False, errors := errors res @ [err]\<rparr>,
         if surface then w\<lparr>console := console w @ [err]\<rparr> else w))"

text \<open>
  What a round of the loop does with the descriptor that \<^verbatim>\<open>getInputField\<close> returned
  (lines 146 to 188), for the key \<open>key\<close> with value \<open>v\<close>.
\<close>

definition fill_input ::
  "env \<Rightarrow> settings \<Rightarrow> callbacks \<Rightarrow> string \<Rightarrow> string \<Rightarrow> input \<Rightarrow> result \<times> world
     \<Rightarrow> result \<times> world" where
  "fill_input e st cbs key v inp s =
     (case inp of
        NotExists \<Rightarrow>
          record_error (enabled st ''throwOnMissingField'')
            (JStr (''Field '' @ quoted key @ '' does not exist'')) s
      | Exists ty nodes \<Rightarrow>
          if ty \<notin> set supportedTypes then
            record_error (enabled st ''throwOnUnsupportedType'')
              (JStr (''Field '' @ quoted key @ '' type not supported'')) s
          else
            (case try_body e st cbs ty nodes v (snd s) of
               (None, w') \<Rightarrow> (fst s, w')
             | (Some err, w') \<Rightarrow> record_error True err (fst s, w')))"

text \<open>
  One round of the loop of \<^verbatim>\<open>fill\<close>, for an own property \<open>key\<close> with value \<open>v\<close>. The call
  of \<^verbatim>\<open>getInputField\<close> stands before the \<^verbatim>\<open>try\<close> block: what \<^verbatim>\<open>querySelectorAll\<close> throws
  leaves the loop and \<^verbatim>\<open>fill\<close> (\<open>Inl\<close>).
\<close>

definition fill_key ::
  "env \<Rightarrow> settings \<Rightarrow> callbacks \<Rightarrow> string \<Rightarrow> string \<Rightarrow> result \<times> world
     \<Rightarrow> (jsval + result) \<times> world" where
  "fill_key e st cbs key v s =
     (case getInputField e (form (snd s)) key of
        Inl err \<Rightarrow> (Inl err, snd s)
      | Inr inp \<Rightarrow> (case fill_input e st cbs key v inp s of (res, w) \<Rightarrow> (Inr res, w)))"

text \<open>
  \<^verbatim>\<open>data.hasOwnProperty\<close> is looked up on \<^verbatim>\<open>data\<close> itself. An enumerable property of that
  name, own or inherited, shadows the built-in method, and its value, a string, cannot be
  called; without \<^verbatim>\<open>Object.prototype\<close> on the chain there is no method at all.
\<close>

definition callable_hasOwnProperty :: "data_object \<Rightarrow> bool" where
  "callable_hasOwnProperty d =
     (object_prototype d \<and> ''hasOwnProperty'' \<notin> pkey ` set (props d))"

text \<open>\<^verbatim>\<open>data.hasOwnProperty(key)\<close>, for the property \<open>p\<close> that the loop is at.\<close>

definition hasOwnProperty :: "data_object \<Rightarrow> property \<Rightarrow> jsval + bool" where
  "hasOwnProperty d p =
     (if callable_hasOwnProperty d then Inr (is_own p)
      else Inl (JTypeError ''data.hasOwnProperty is not a function''))"

text \<open>
  The loop of \<^verbatim>\<open>fill\<close> over the properties still to come. An exception outside the \<^verbatim>\<open>try\<close>
  block ends it: \<^verbatim>\<open>fill\<close> returns no result then (\<open>Inl\<close>).
\<close>

fun fill_loop ::
  "env \<Rightarrow> settings \<Rightarrow> callbacks \<Rightarrow> data_object \<Rightarrow> property list \<Rightarrow> result \<times> world
     \<Rightarrow> (jsval + result) \<times> world" where
  "fill_loop e st cbs d [] s = (Inr (fst s), snd s)"
| "fill_loop e st cbs d (p # rest) s =
     (case hasOwnProperty d p of
        Inl err \<Rightarrow> (Inl err, snd s)
      | Inr own \<Rightarrow>
          if \<not> own then fill_loop e st cbs d rest s
          else
            (case fill_key e st cbs (pkey p) (pvalue p) s of
               (Inl err, w') \<Rightarrow> (Inl err, w')
             | (Inr res', w') \<Rightarrow> fill_loop e st cbs d rest (res', w')))"

definition fill ::
  "env \<Rightarrow> settings \<Rightarrow> callbacks \<Rightarrow> data_object \<Rightarrow> world \<Rightarrow> (jsval + result) \<times> world" where
  "fill e st cbs d w = fill_loop e st cbs d (props d) (\<lparr>success = True, errors = []\<rparr>, w)"

section \<open>Settings and callback registration\<close>

text \<open>
  \<^verbatim>\<open>for (let i in settings) settings[i] = value\<close> overwrites every entry present; the
  assignment \<^verbatim>\<open>settings[key] = value\<close> after it runs for every key, \<^verbatim>\<open>'strict'\<close> included.
\<close>

definition setting :: "string \<Rightarrow> bool \<Rightarrow> settings \<Rightarrow> settings" where
  "setting key v st =
     (let st1 = (if key = ''strict'' then (\<lambda>i. map_option (\<lambda>_. v) (st i)) else st)
      in st1(key \<mapsto> v))"

text \<open>The settings after a sequence of \<^verbatim>\<open>setting\<close> calls on a fresh filler.\<close>

definition settings_after :: "(string \<times> bool) list \<Rightarrow> settings" where
  "settings_after cs = foldl (\<lambda>st (k, v). setting k v st) default_settings cs"

text \<open>The second argument of \<^verbatim>\<open>callbackAfterFill\<close>: a function, or any other value.\<close>

datatype fn_arg = Function callback | NotFunction

definition callbackAfterFill :: "string \<Rightarrow> fn_arg \<Rightarrow> callbacks \<Rightarrow> jsval + callbacks" where
  "callbackAfterFill ty fn cbs =
     (case fn of
        Function cb \<Rightarrow> Inr (cbs(ty \<mapsto> cb))
      | NotFunction \<Rightarrow> Inl (JError ''Callback must be a function''))"

section \<open>Notions used in the statements\<close>

text \<open>The keys of the own properties among \<open>ps\<close>, in enumeration order.\<close>

fun own_keys :: "property list \<Rightarrow> string list" where
  "own_keys [] = []"
| "own_keys (Own key v # rest) = key # own_keys rest"
| "own_keys (Inherited key v # rest) = own_keys rest"

text \<open>What an object literal \<^verbatim>\<open>{k1: v1, ...}\<close> creates.\<close>

definition object_literal :: "(string \<times> string) list \<Rightarrow> data_object" where
  "object_literal kvs = \<lparr>props = map (\<lambda>(k, v). Own k v) kvs, object_prototype = True\<rparr>"

text \<open>
  The engine reads the selector built from \<open>key\<close> as it is meant: it matches exactly the
  elements whose name attribute is \<open>key\<close>.
\<close>

definition literal_selector :: "env \<Rightarrow> string \<Rightarrow> bool" where
  "literal_selector e key =
     (\<exists>m. selector_engine e (selector key) = Inr m
          \<and> (\<forall>f i. m f i = (cname (f ! i) = Some key)))"

text \<open>\<^verbatim>\<open>pieces.join(',')\<close>, the inverse of splitting on commas.\<close>

fun join_comma :: "string list \<Rightarrow> string" where
  "join_comma [] = []"
| "join_comma [p] = p"
| "join_comma (p # q # ps) = p @ CHR '','' # join_comma (q # ps)"

text \<open>
  User code that writes to nothing but the control it is handed, and leaves that control's
  name and type alone.
\<close>

definition local_handler :: "handler \<Rightarrow> bool" where
  "local_handler h =
     (\<forall>i f. i < length f \<longrightarrow>
        (\<exists>c. fst (h i f) = f[i := c] \<and> cname c = cname (f ! i) \<and> ctype c = ctype (f ! i)))"

definition local_user_code :: "env \<Rightarrow> callbacks \<Rightarrow> bool" where
  "local_user_code e cbs =
     ((\<forall>h. jquery e = Some h \<longrightarrow> local_handler h) \<and>
      (\<forall>ty cb v. cbs ty = Some cb \<longrightarrow> local_handler (\<lambda>i. cb i v)))"

text \<open>The name and the type of every element: what field resolution reads.\<close>

definition shape :: "control list \<Rightarrow> (string option \<times> string) list" where
  "shape f = map (\<lambda>c. (cname c, ctype c)) f"

text \<open>
  The controls that a round for \<open>key\<close> may write to: the whole group when the resolved
  type is \<^verbatim>\<open>checkbox\<close> or \<^verbatim>\<open>radio\<close>, the first matched control otherwise.
\<close>

definition allowed :: "env \<Rightarrow> control list \<Rightarrow> string \<Rightarrow> nat set" where
  "allowed e f key =
     (case getInputField e f key of
        Inl err \<Rightarrow> {}
      | Inr NotExists \<Rightarrow> {}
      | Inr (Exists ty nodes) \<Rightarrow>
          if ty = ''checkbox'' \<or> ty = ''radio'' then set nodes else {hd nodes})"

text \<open>
  \<open>f'\<close> has the names and types of \<open>f\<close>, and differs from it at most at the positions in
  \<open>S\<close>.
\<close>

definition unchanged_outside :: "nat set \<Rightarrow> control list \<Rightarrow> control list \<Rightarrow> bool" where
  "unchanged_outside S f f' =
     (shape f' = shape f \<and> (\<forall>j<length f. j \<notin> S \<longrightarrow> f' ! j = f ! j))"

section \<open>Sample inputs\<close>

text \<open>
  A sample selector engine, for the selectors that the examples below build. It reads
  the lists \<^verbatim>\<open>[name="n1"],[name="n2"],...\<close> of name attribute selectors whose strings hold
  no double quote, backslash or line break, written without white space: such a list
  matches the elements whose name is one of \<open>n1\<close>, \<open>n2\<close>, ... Any other text is refused with
  a \<^verbatim>\<open>SyntaxError\<close>; that is the browser's answer for the malformed selectors used below,
  not for all of CSS.
\<close>

definition plain_char :: "char \<Rightarrow> bool" where
  "plain_char c =
     (c \<noteq> CHR 0x22 \<and> c \<noteq> CHR 0x5C \<and> c \<noteq> CHR 0x0A \<and> c \<noteq> CHR 0x0C \<and> c \<noteq> CHR 0x0D)"

text \<open>The names of a selector list, read from just after an opening \<^verbatim>\<open>[name="\<close>.\<close>

fun names_after_open :: "string \<Rightarrow> string list option" where
  "names_after_open [] = None"
| "names_after_open (c # cs) =
     (if c = CHR 0x22 then
        (if cs = '']'' then Some [[]]
         else if take 9 cs = ''],[name='' @ [CHR 0x22]
         then map_option ((#) []) (names_after_open (drop 9 cs))
         else None)
      else if \<not> plain_char c then None
      else (case names_after_open cs of
              None \<Rightarrow> None
            | Some [] \<Rightarrow> None
            | Some (n # ns) \<Rightarrow> Some ((c # n) # ns)))"

definition name_selectors :: "string \<Rightarrow> jsval + matcher" where
  "name_selectors sel =
     (if take 7 sel = ''[name='' @ [CHR 0x22] then
        (case names_after_open (drop 7 sel) of
           None \<Rightarrow> Inl (JSyntaxError ''not a valid selector'')
         | Some names \<Rightarrow> Inr (\<lambda>f i. cname (f ! i) \<in> Some ` set names))
      else Inl (JSyntaxError ''not a valid selector''))"

text \<open>
  A page without jQuery and without a global \<^verbatim>\<open>key\<close>, and a form with a text field whose
  name occurs twice, a group of three checkboxes, a select, a file input and a textarea.
\<close>

definition sample_env :: env where
  "sample_env = \<lparr>jquery = None, global_key = None, selector_engine = name_selectors\<rparr>"

definition sample_form :: "control list" where
  "sample_form =
     [\<lparr>cname = Some ''username'', ctype = ''text'', cvalue = [], cchecked = False,
        coptions = []\<rparr>,
      \<lparr>cname = Some ''hobby'', ctype = ''checkbox'', cvalue = ''a'', cchecked = True,
        coptions = []\<rparr>,
      \<lparr>cname = Some ''hobby'', ctype = ''checkbox'', cvalue = ''b'', cchecked = False,
        coptions = []\<rparr>,
      \<lparr>cname = Some ''hobby'', ctype = ''checkbox'', cvalue = ''c'', cchecked = False,
        coptions = []\<rparr>,
      \<lparr>cname = Some ''country'', ctype = ''select-one'', cvalue = ''US'', cchecked = False,
        coptions = [''US'', ''ID'']\<rparr>,
      \<lparr>cname = Some ''avatar'', ctype = ''file'', cvalue = [], cchecked = False,
        coptions = []\<rparr>,
      \<lparr>cname = Some ''bio'', ctype = ''textarea'', cvalue = [], cchecked = False,
        coptions = []\<rparr>,
      \<lparr>cname = Some ''username'', ctype = ''text'', cvalue = ''old'', cchecked = False,
        coptions = []\<rparr>]"

definition sample_world :: world where
  "sample_world = \<lparr>form = sample_form, console = [], calls = []\<rparr>"

text \<open>A callback that writes nothing and throws the string \<^verbatim>\<open>boom\<close>.\<close>

definition throwing_callback :: callback where
  "throwing_callback i v f = (f, Some (JStr ''boom''))"

text \<open>A callback that marks the control it is handed as checked, and returns.\<close>

definition marking_callback :: callback where
  "marking_callback i v f = (f[i := (f ! i)\<lparr>cchecked := True\<rparr>], None)"

text \<open>A callback that clears the value of the last element of the form, whatever it is handed.\<close>

definition wandering_callback :: callback where
  "wandering_callback i v f =
     (f[length f - 1 := (f ! (length f - 1))\<lparr>cvalue := []\<rparr>], None)"

text \<open>
  Two keys with a double quote: \<^verbatim>\<open>a"b\<close>, whose selector \<^verbatim>\<open>[name="a"b"]\<close> is malformed, and
  \<^verbatim>\<open>x"],[name="username\<close>, whose selector is the list \<^verbatim>\<open>[name="x"],[name="username"]\<close>.
\<close>

definition broken_key :: string where
  "broken_key = ''a'' @ [CHR 0x22] @ ''b''"

definition injecting_key :: string where
  "injecting_key = ''x'' @ [CHR 0x22] @ ''],[name='' @ [CHR 0x22] @ ''username''"

lemmas model_defs =
  fill_def fill_key_def fill_input_def getInputField_def querySelectorAll_def selector_def
  try_body_def dispatch_def fillFile_def fillCheckbox_def fillRadio_def fillField_def
  fillSelect_def record_error_def enabled_def quoted_def name_prop_def supportedTypes_def
  default_settings_def setting_def hasOwnProperty_def callable_hasOwnProperty_def
  object_literal_def

lemmas sample_defs =
  sample_env_def name_selectors_def plain_char_def sample_form_def sample_world_def
  throwing_callback_def marking_callback_def wandering_callback_def broken_key_def
  injecting_key_def upt_conv_Cons

section \<open>Field resolution: basic facts\<close>

lemma querySelectorAll_Inr:
  assumes "querySelectorAll e f key = Inr ns"
  obtains m where "selector_engine e (selector key) = Inr m"
    and "ns = filter (m f) [0..<length f]"
  using assms by (auto simp: querySelectorAll_def split: sum.splits)

lemma querySelectorAll_bound:
  assumes "querySelectorAll e f key = Inr ns" and "i \<in> set ns"
  shows "i < length f"
  using assms by (auto elim!: querySelectorAll_Inr)

lemma querySelectorAll_first:
  assumes "querySelectorAll e f key = Inr (i # rest)" and "j < i"
  shows "j \<notin> set (i # rest)"
proof
  assume jm: "j \<in> set (i # rest)"
  from assms(1) obtain m where "i # rest = filter (m f) [0..<length f]"
    by (rule querySelectorAll_Inr)
  moreover have "sorted (filter (m f) [0..<length f])"
    by (rule sorted_wrt_filter) simp
  ultimately have "sorted (i # rest)" by simp
  with jm have "i \<le> j" by auto
  with assms(2) show False by simp
qed

lemma getInputField_Exists:
  assumes "getInputField e f key = Inr (Exists ty nodes)"
  shows "querySelectorAll e f key = Inr nodes" and "nodes \<noteq> []"
    and "ty = ctype (f ! hd nodes)" and "hd nodes < length f"
    and "\<forall>j<hd nodes. j \<notin> set nodes"
proof -
  from assms show q: "querySelectorAll e f key = Inr nodes" and ne: "nodes \<noteq> []"
    and "ty = ctype (f ! hd nodes)"
    by (auto simp: getInputField_def split: sum.splits list.splits)
  from ne have "hd nodes \<in> set nodes" by simp
  then show "hd nodes < length f" using q by (rule querySelectorAll_bound [rotated])
  from ne obtain i rest where n: "nodes = i # rest" by (cases nodes) auto
  show "\<forall>j<hd nodes. j \<notin> set nodes"
    using querySelectorAll_first [of e f key i rest] q n by simp
qed


lemma literal_query:
  assumes "literal_selector e key"
  shows "querySelectorAll e f key = Inr (filter (\<lambda>i. cname (f ! i) = Some key) [0..<length f])"
proof -
  from assms obtain m where m: "selector_engine e (selector key) = Inr m"
    and l: "\<forall>f i. m f i = (cname (f ! i) = Some key)"
    unfolding literal_selector_def by blast
  from l have "m f = (\<lambda>i. cname (f ! i) = Some key)" by auto
  with m show ?thesis by (simp add: querySelectorAll_def)
qed

lemma literal_nodes:
  assumes "literal_selector e key" and "getInputField e f key = Inr (Exists ty nodes)"
  shows "set nodes = {i. i < length f \<and> cname (f ! i) = Some key}"
proof -
  have "Inr nodes = querySelectorAll e f key"
    using getInputField_Exists(1) [OF assms(2)] by simp
  also have "\<dots> = Inr (filter (\<lambda>i. cname (f ! i) = Some key) [0..<length f])"
    using assms(1) by (rule literal_query)
  finally have "nodes = filter (\<lambda>i. cname (f ! i) = Some key) [0..<length f]" by simp
  then show ?thesis by auto
qed

lemma literal_first:
  assumes "literal_selector e key" and "getInputField e f key = Inr (Exists ty nodes)"
  shows "cname (f ! hd nodes) = Some key" and "\<forall>j<hd nodes. cname (f ! j) \<noteq> Some key"
proof -
  have mem: "set nodes = {i. i < length f \<and> cname (f ! i) = Some key}"
    using assms by (rule literal_nodes)
  have ne: "nodes \<noteq> []" and b: "hd nodes < length f"
    and first: "\<forall>j<hd nodes. j \<notin> set nodes"
    using getInputField_Exists(2,4,5) [OF assms(2)] by simp_all
  from ne have "hd nodes \<in> set nodes" by simp
  then show "cname (f ! hd nodes) = Some key" using mem by simp
  show "\<forall>j<hd nodes. cname (f ! j) \<noteq> Some key"
  proof (intro allI impI)
    fix j assume j: "j < hd nodes"
    then have "j \<notin> set nodes" using first by simp
    moreover have "j < length f" using j b by simp
    ultimately show "cname (f ! j) \<noteq> Some key" using mem by simp
  qed
qed


lemma select_one_supported: "''select-one'' \<in> set supportedTypes"
  by (simp add: supportedTypes_def)

lemma file_supported: "''file'' \<in> set supportedTypes"
  by (simp add: supportedTypes_def)

lemma checkbox_supported: "''checkbox'' \<in> set supportedTypes"
  by (simp add: supportedTypes_def)

lemma fill_key_found:
  "getInputField e (form (snd s)) key = Inr inp \<Longrightarrow>
   fill_key e st cbs key v s
     = (Inr (fst (fill_input e st cbs key v inp s)), snd (fill_input e st cbs key v inp s))"
  by (simp add: fill_key_def split: prod.splits)

lemma callable_object_literal:
  "callable_hasOwnProperty (object_literal kvs) = (''hasOwnProperty'' \<notin> fst ` set kvs)"
  by (force simp: callable_hasOwnProperty_def object_literal_def image_iff)

lemma fill_single:
  assumes "key \<noteq> ''hasOwnProperty''"
  shows "fill e st cbs (object_literal [(key, v)]) w
       = (case fill_key e st cbs key v (\<lparr>success = True, errors = []\<rparr>, w) of
            (Inl err, w') \<Rightarrow> (Inl err, w')
          | (Inr res, w') \<Rightarrow> (Inr res, w'))"
proof -
  have c: "callable_hasOwnProperty (object_literal [(key, v)])"
    using assms by (simp add: callable_object_literal)
  have p: "props (object_literal [(key, v)]) = [Own key v]"
    by (simp add: object_literal_def)
  show ?thesis
    by (simp add: fill_def p hasOwnProperty_def c split: prod.splits sum.splits)
qed

section \<open>The result invariant\<close>

lemma record_error_inv:
  "success (fst (record_error b err s)) = (errors (fst (record_error b err s)) = [])"
  by (simp add: record_error_def split: prod.splits)

lemma fill_input_inv:
  assumes "success (fst s) = (errors (fst s) = [])"
  shows "success (fst (fill_input e st cbs key v inp s))
       = (errors (fst (fill_input e st cbs key v inp s)) = [])"
  using assms
  by (auto simp: fill_input_def record_error_def split: input.splits prod.splits option.splits)

lemma fill_key_inv:
  assumes "success (fst s) = (errors (fst s) = [])"
    and "fill_key e st cbs key v s = (Inr res, w)"
  shows "success res = (errors res = [])"
proof -
  from assms(2) obtain inp where "getInputField e (form (snd s)) key = Inr inp"
    by (cases "getInputField e (form (snd s)) key") (simp_all add: fill_key_def)
  from fill_key_found [OF this, of st cbs v] assms(2)
  have "res = fst (fill_input e st cbs key v inp s)" by simp
  then show ?thesis using fill_input_inv [OF assms(1)] by simp
qed

lemma fill_loop_inv:
  assumes "success (fst s) = (errors (fst s) = [])"
    and "fill_loop e st cbs d ps s = (Inr res, w)"
  shows "success res = (errors res = [])"
  using assms
proof (induction ps arbitrary: s)
  case Nil
  then show ?case by auto
next
  case (Cons p ps)
  from Cons.prems(2) obtain own where h: "hasOwnProperty d p = Inr own"
    by (cases "hasOwnProperty d p") simp_all
  show ?case
  proof (cases own)
    case False
    with h Cons.prems(2) have "fill_loop e st cbs d ps s = (Inr res, w)" by simp
    with Cons.IH Cons.prems(1) show ?thesis by blast
  next
    case True
    obtain r1 w1 where k: "fill_key e st cbs (pkey p) (pvalue p) s = (r1, w1)"
      by (cases "fill_key e st cbs (pkey p) (pvalue p) s")
    with h True Cons.prems(2) obtain res1 where r1: "r1 = Inr res1"
      and l: "fill_loop e st cbs d ps (res1, w1) = (Inr res, w)"
      by (cases r1) simp_all
    have "success res1 = (errors res1 = [])"
      using fill_key_inv [OF Cons.prems(1)] k r1 by simp
    then have "success (fst (res1, w1)) = (errors (fst (res1, w1)) = [])" by simp
    from Cons.IH [OF this l] show ?thesis .
  qed
qed

text \<open>
  Claim C1. For every data object, every settings configuration, every callback registry
  and every environment, the result that \<^verbatim>\<open>fill\<close> returns has \<^verbatim>\<open>success\<close> true exactly when
  its \<^verbatim>\<open>errors\<close> list is empty. (When an exception leaves \<^verbatim>\<open>fill\<close> there is no result.)
\<close>

theorem fill_success_iff_no_errors:
  "fill e st cbs d w = (Inr res, w') \<Longrightarrow> success res = (errors res = [])"
  using fill_loop_inv [of "(\<lparr>success = True, errors = []\<rparr>, w)" e st cbs d "props d" res w']
  by (simp add: fill_def)

theorem fill_success_iff_no_errors_witness:
  "fill sample_env default_settings Map.empty
     (object_literal [(''username'', ''joe''), (''nope'', ''1'')]) sample_world
     = (Inr \<lparr>success = False,
             errors = [JStr (''Field '' @ quoted ''nope'' @ '' does not exist'')]\<rparr>,
        \<lparr>form = sample_form[0 := (sample_form ! 0)\<lparr>cvalue := ''joe''\<rparr>],
         console = [JStr (''Field '' @ quoted ''nope'' @ '' does not exist'')],
         calls = []\<rparr>)
   \<and> success \<lparr>success = False,
             errors = [JStr (''Field '' @ quoted ''nope'' @ '' does not exist'')]\<rparr>
     = (errors \<lparr>success = False,
             errors = [JStr (''Field '' @ quoted ''nope'' @ '' does not exist'')]\<rparr> = [])"
proof -
  have r: "fill sample_env default_settings Map.empty
     (object_literal [(''username'', ''joe''), (''nope'', ''1'')]) sample_world
     = (Inr \<lparr>success = False,
             errors = [JStr (''Field '' @ quoted ''nope'' @ '' does not exist'')]\<rparr>,
        \<lparr>form = sample_form[0 := (sample_form ! 0)\<lparr>cvalue := ''joe''\<rparr>],
         console = [JStr (''Field '' @ quoted ''nope'' @ '' does not exist'')],
         calls = []\<rparr>)"
    by (simp add: model_defs sample_defs)
  from fill_success_iff_no_errors [OF r] r show ?thesis by blast
qed

section \<open>Invalid select options\<close>

text \<open>
  Claim C2, as amended. For a select-one field and a value that is not among the control's
  option values: when \<^verbatim>\<open>throwOnInvalidSelectOption\<close> is enabled, \<^verbatim>\<open>fill\<close> records one error
  for the key, sets \<^verbatim>\<open>success\<close> to false and writes the error to the console; when it is
  not enabled, \<^verbatim>\<open>fillSelect\<close> returns false, and \<^verbatim>\<open>fill\<close> records nothing, surfaces nothing and
  changes nothing for that key, so \<^verbatim>\<open>fill\<close> on that key alone returns \<^verbatim>\<open>success == true\<close>.
  (A data object whose only key is \<^verbatim>\<open>hasOwnProperty\<close> never reaches the field: the call
  \<^verbatim>\<open>data.hasOwnProperty(key)\<close> throws first.)
\<close>

theorem fill_key_select_invalid_option:
  assumes "getInputField e (form w) key = Inr (Exists ''select-one'' nodes)"
    and "v \<notin> set (coptions (form w ! hd nodes))"
  shows "(if enabled st ''throwOnInvalidSelectOption''
          then \<exists>err. fill_key e st cbs key v (res, w)
                  = (Inr (res\<lparr>success := False, errors := errors res @ [err]\<rparr>),
                     w\<lparr>console := console w @ [err]\<rparr>)
                \<and> (key \<noteq> ''hasOwnProperty'' \<longrightarrow>
                     fst (fill e st cbs (object_literal [(key, v)]) w)
                       = Inr \<lparr>success = False, errors = [err]\<rparr>)
          else fill_key e st cbs key v (res, w) = (Inr res, w)
                \<and> (key \<noteq> ''hasOwnProperty'' \<longrightarrow>
                     fill e st cbs (object_literal [(key, v)]) w
                       = (Inr \<lparr>success = True, errors = []\<rparr>, w)))"
proof -
  have inp: "\<And>r. fill_input e st cbs key v (Exists ''select-one'' nodes) (r, w)
      = (if enabled st ''throwOnInvalidSelectOption''
         then (case global_key e of
                 None \<Rightarrow> record_error True (JReferenceError ''key is not defined'') (r, w)
               | Some k \<Rightarrow>
                   record_error True
                     (JStr (''Field '' @ quoted k @ '' does not have select option value ''
                            @ quoted v)) (r, w))
         else (r, w))"
    using assms(2)
    by (simp add: fill_input_def try_body_def dispatch_def fillSelect_def select_one_supported
        split: option.splits)
  have key: "\<And>r. fill_key e st cbs key v (r, w)
      = (Inr (fst (fill_input e st cbs key v (Exists ''select-one'' nodes) (r, w))),
         snd (fill_input e st cbs key v (Exists ''select-one'' nodes) (r, w)))"
    using assms(1) by (simp add: fill_key_found)
  show ?thesis
  proof (cases "enabled st ''throwOnInvalidSelectOption''")
    case False
    then show ?thesis by (simp add: key inp fill_single)
  next
    case True
    then show ?thesis
      by (cases "global_key e") (auto simp: key inp fill_single record_error_def)
  qed
qed

theorem fill_key_select_invalid_option_witness:
  "getInputField sample_env (form sample_world) ''country'' = Inr (Exists ''select-one'' [4])
   \<and> ''XX'' \<notin> set (coptions (form sample_world ! hd [4]))
   \<and> enabled default_settings ''throwOnInvalidSelectOption''
   \<and> ''country'' \<noteq> ''hasOwnProperty''
   \<and> (\<exists>err. fill_key sample_env default_settings Map.empty ''country'' ''XX''
               (\<lparr>success = True, errors = []\<rparr>, sample_world)
             = (Inr \<lparr>success = False, errors = [err]\<rparr>, sample_world\<lparr>console := [err]\<rparr>)
           \<and> fst (fill sample_env default_settings Map.empty
                    (object_literal [(''country'', ''XX'')]) sample_world)
             = Inr \<lparr>success = False, errors = [err]\<rparr>)"
proof -
  have g: "getInputField sample_env (form sample_world) ''country''
             = Inr (Exists ''select-one'' [4])"
    by (simp add: model_defs sample_defs)
  have n: "''XX'' \<notin> set (coptions (form sample_world ! hd [4]))"
    by (simp add: sample_defs)
  have en: "enabled default_settings ''throwOnInvalidSelectOption''"
    by (simp add: enabled_def default_settings_def)
  have k: "''country'' \<noteq> ''hasOwnProperty''" by simp
  from fill_key_select_invalid_option [OF g n, of default_settings Map.empty
      "\<lparr>success = True, errors = []\<rparr>"] en k
  have "\<exists>err. fill_key sample_env default_settings Map.empty ''country'' ''XX''
               (\<lparr>success = True, errors = []\<rparr>, sample_world)
             = (Inr \<lparr>success = False, errors = [err]\<rparr>, sample_world\<lparr>console := [err]\<rparr>)
           \<and> fst (fill sample_env default_settings Map.empty
                    (object_literal [(''country'', ''XX'')]) sample_world)
             = Inr \<lparr>success = False, errors = [err]\<rparr>"
    by (auto simp: sample_world_def)
  with g n en k show ?thesis by blast
qed

text \<open>
  The claim as written fails with the setting off: the select \<^verbatim>\<open>country\<close> offers \<^verbatim>\<open>US\<close> and
  \<^verbatim>\<open>ID\<close>, the value is \<^verbatim>\<open>XX\<close>, and \<^verbatim>\<open>fill\<close> returns \<^verbatim>\<open>{success: true, errors: []}\<close>.
\<close>

theorem select_invalid_option_counterexample:
  "getInputField sample_env (form sample_world) ''country'' = Inr (Exists ''select-one'' [4])
   \<and> ''XX'' \<notin> set (coptions (form sample_world ! 4))
   \<and> fill sample_env (setting ''throwOnInvalidSelectOption'' False default_settings) Map.empty
        (object_literal [(''country'', ''XX'')]) sample_world
      = (Inr \<lparr>success = True, errors = []\<rparr>, sample_world)"
  by (simp add: model_defs sample_defs)

section \<open>File fields\<close>

text \<open>
  Claim C3, as amended. For a file field: with the empty string the strategy reports
  \<^verbatim>\<open>filled\<close> and records no error (with no callback registered for \<^verbatim>\<open>file\<close> the round changes
  nothing at all); with a non-empty value, \<^verbatim>\<open>fill\<close> records the error
  \<^verbatim>\<open>Field '<name>' only supports empty string\<close>, with the name of the file input, and
  surfaces it when \<^verbatim>\<open>throwOnFileError\<close> is enabled, and records nothing, surfaces nothing and
  changes nothing when it is not. Where the engine reads the selector of the key literally,
  the name of the file input is the key.
\<close>

theorem fill_key_file:
  assumes "getInputField e (form w) key = Inr (Exists ''file'' nodes)"
  shows "fillFile st (form w ! hd nodes) [] = Inr True
       \<and> (cbs ''file'' = None \<longrightarrow> fill_key e st cbs key [] (res, w) = (Inr res, w))
       \<and> (v \<noteq> [] \<longrightarrow>
            fill_key e st cbs key v (res, w)
              = (if enabled st ''throwOnFileError''
                 then (Inr (res\<lparr>success := False,
                            errors := errors res
                              @ [JStr (''Field '' @ quoted (name_prop (form w ! hd nodes))
                                       @ '' only supports empty string'')]\<rparr>),
                       w\<lparr>console := console w
                              @ [JStr (''Field '' @ quoted (name_prop (form w ! hd nodes))
                                       @ '' only supports empty string'')]\<rparr>)
                 else (Inr res, w)))
       \<and> (literal_selector e key \<longrightarrow> name_prop (form w ! hd nodes) = key)"
proof -
  have key: "\<And>x. fill_key e st cbs key x (res, w)
      = (Inr (fst (fill_input e st cbs key x (Exists ''file'' nodes) (res, w))),
         snd (fill_input e st cbs key x (Exists ''file'' nodes) (res, w)))"
    using assms by (simp add: fill_key_found)
  have a: "fillFile st (form w ! hd nodes) [] = Inr True"
    by (simp add: fillFile_def)
  have b: "cbs ''file'' = None \<longrightarrow> fill_key e st cbs key [] (res, w) = (Inr res, w)"
    by (simp add: key fill_input_def try_body_def dispatch_def fillFile_def file_supported)
  have c: "v \<noteq> [] \<longrightarrow>
            fill_key e st cbs key v (res, w)
              = (if enabled st ''throwOnFileError''
                 then (Inr (res\<lparr>success := False,
                            errors := errors res
                              @ [JStr (''Field '' @ quoted (name_prop (form w ! hd nodes))
                                       @ '' only supports empty string'')]\<rparr>),
                       w\<lparr>console := console w
                              @ [JStr (''Field '' @ quoted (name_prop (form w ! hd nodes))
                                       @ '' only supports empty string'')]\<rparr>)
                 else (Inr res, w))"
    by (simp add: key fill_input_def try_body_def dispatch_def fillFile_def file_supported
        record_error_def)
  have d: "literal_selector e key \<longrightarrow> name_prop (form w ! hd nodes) = key"
    using literal_first(1) [OF _ assms] by (simp add: name_prop_def)
  from a b c d show ?thesis by blast
qed

lemma names_after_open_plain:
  "list_all plain_char key \<Longrightarrow> names_after_open (key @ [CHR 0x22] @ '']'') = Some [key]"
  by (induction key) (simp_all add: plain_char_def)

lemma sample_env_literal:
  assumes "list_all plain_char key"
  shows "literal_selector sample_env key"
proof -
  have "selector_engine sample_env (selector key)
      = Inr (\<lambda>f i. cname (f ! i) \<in> Some ` set [key])"
    using names_after_open_plain [OF assms]
    by (simp add: sample_env_def name_selectors_def selector_def)
  then show ?thesis by (simp add: literal_selector_def)
qed

lemma sample_env_username: "literal_selector sample_env ''username''"
  by (rule sample_env_literal) (simp add: plain_char_def)

lemma sample_env_hobby: "literal_selector sample_env ''hobby''"
  by (rule sample_env_literal) (simp add: plain_char_def)

lemma sample_env_avatar: "literal_selector sample_env ''avatar''"
  by (rule sample_env_literal) (simp add: plain_char_def)


theorem fill_key_file_witness:
  "getInputField sample_env (form sample_world) ''avatar'' = Inr (Exists ''file'' [5])
   \<and> literal_selector sample_env ''avatar''
   \<and> fill_key sample_env default_settings Map.empty ''avatar'' []
        (\<lparr>success = True, errors = []\<rparr>, sample_world)
      = (Inr \<lparr>success = True, errors = []\<rparr>, sample_world)
   \<and> fill_key sample_env default_settings Map.empty ''avatar'' ''me.png''
        (\<lparr>success = True, errors = []\<rparr>, sample_world)
      = (Inr \<lparr>success = False,
          errors = [JStr (''Field '' @ quoted ''avatar'' @ '' only supports empty string'')]\<rparr>,
         sample_world\<lparr>console :=
           [JStr (''Field '' @ quoted ''avatar'' @ '' only supports empty string'')]\<rparr>)"
proof -
  have g: "getInputField sample_env (form sample_world) ''avatar'' = Inr (Exists ''file'' [5])"
    by (simp add: model_defs sample_defs)
  have en: "enabled default_settings ''throwOnFileError''"
    by (simp add: enabled_def default_settings_def)
  have ne: "''me.png'' \<noteq> []" by simp
  have nc: "(Map.empty :: callbacks) ''file'' = None" by simp
  have l: "literal_selector sample_env ''avatar''" by (rule sample_env_avatar)
  from fill_key_file [OF g, of default_settings Map.empty
      "\<lparr>success = True, errors = []\<rparr>" "''me.png''"] en ne nc g l
  show ?thesis by (simp add: sample_world_def)
qed

text \<open>
  The claim as written fails with the setting off: a non-empty value for the file input
  \<^verbatim>\<open>avatar\<close> leaves \<^verbatim>\<open>errors\<close> empty.
\<close>

theorem file_error_counterexample:
  "getInputField sample_env (form sample_world) ''avatar'' = Inr (Exists ''file'' [5])
   \<and> fill sample_env (setting ''throwOnFileError'' False default_settings) Map.empty
        (object_literal [(''avatar'', ''me.png'')]) sample_world
      = (Inr \<lparr>success = True, errors = []\<rparr>, sample_world)"
  by (simp add: model_defs sample_defs)

section \<open>Callbacks\<close>

text \<open>
  Claim C4, as amended. When the strategy of a key reports \<^verbatim>\<open>filled == true\<close> and a callback
  is registered for the resolved type, \<^verbatim>\<open>fill\<close> calls it once, at once, with the first
  matched control and the raw value. The call stands inside the \<^verbatim>\<open>try\<close> block: a value that
  the callback throws is caught there, appended to \<^verbatim>\<open>result.errors\<close>, \<^verbatim>\<open>success\<close> becomes
  false, the value is written to the console, and the loop goes on with the next key.
  Where the engine reads the selector of the key literally, the first matched control is
  the first element of that name.
\<close>

theorem fill_key_callback:
  assumes "getInputField e (form w) key = Inr (Exists ty nodes)"
    and "ty \<in> set supportedTypes"
    and "dispatch e st (form w) ty nodes v = (Inr True, f1)"
    and "cbs ty = Some cb"
    and "cb (hd nodes) v f1 = (f2, thrown)"
  shows "fill_key e st cbs key v (res, w) =
           (case thrown of
              None \<Rightarrow> (Inr res, w\<lparr>form := f2, calls := calls w @ [(ty, hd nodes, v)]\<rparr>)
            | Some err \<Rightarrow>
                (Inr (res\<lparr>success := False, errors := errors res @ [err]\<rparr>),
                 w\<lparr>form := f2, calls := calls w @ [(ty, hd nodes, v)],
                    console := console w @ [err]\<rparr>))
         \<and> (callable_hasOwnProperty d \<longrightarrow>
              fill_loop e st cbs d (Own key v # rest) (res, w) =
                fill_loop e st cbs d rest
                  (case thrown of
                     None \<Rightarrow> (res, w\<lparr>form := f2, calls := calls w @ [(ty, hd nodes, v)]\<rparr>)
                   | Some err \<Rightarrow>
                       (res\<lparr>success := False, errors := errors res @ [err]\<rparr>,
                        w\<lparr>form := f2, calls := calls w @ [(ty, hd nodes, v)],
                           console := console w @ [err]\<rparr>)))
         \<and> hd nodes < length (form w) \<and> (\<forall>j<hd nodes. j \<notin> set nodes)
         \<and> (literal_selector e key \<longrightarrow>
              cname (form w ! hd nodes) = Some key
              \<and> (\<forall>j<hd nodes. cname (form w ! j) \<noteq> Some key))"
proof -
  have inp: "fill_input e st cbs key v (Exists ty nodes) (res, w) =
           (case thrown of
              None \<Rightarrow> (res, w\<lparr>form := f2, calls := calls w @ [(ty, hd nodes, v)]\<rparr>)
            | Some err \<Rightarrow>
                (res\<lparr>success := False, errors := errors res @ [err]\<rparr>,
                 w\<lparr>form := f2, calls := calls w @ [(ty, hd nodes, v)],
                    console := console w @ [err]\<rparr>))"
    using assms(2-5)
    by (simp add: fill_input_def try_body_def record_error_def split: option.splits)
  have key: "fill_key e st cbs key v (res, w) =
           (case thrown of
              None \<Rightarrow> (Inr res, w\<lparr>form := f2, calls := calls w @ [(ty, hd nodes, v)]\<rparr>)
            | Some err \<Rightarrow>
                (Inr (res\<lparr>success := False, errors := errors res @ [err]\<rparr>),
                 w\<lparr>form := f2, calls := calls w @ [(ty, hd nodes, v)],
                    console := console w @ [err]\<rparr>))"
    using assms(1) by (simp add: fill_key_found inp split: option.splits)
  have loop: "callable_hasOwnProperty d \<longrightarrow>
              fill_loop e st cbs d (Own key v # rest) (res, w) =
                fill_loop e st cbs d rest
                  (case thrown of
                     None \<Rightarrow> (res, w\<lparr>form := f2, calls := calls w @ [(ty, hd nodes, v)]\<rparr>)
                   | Some err \<Rightarrow>
                       (res\<lparr>success := False, errors := errors res @ [err]\<rparr>,
                        w\<lparr>form := f2, calls := calls w @ [(ty, hd nodes, v)],
                           console := console w @ [err]\<rparr>))"
    by (simp add: hasOwnProperty_def key split: option.splits)
  have pos: "hd nodes < length (form w)" "\<forall>j<hd nodes. j \<notin> set nodes"
    using getInputField_Exists(4,5) [OF assms(1)] by simp_all
  have lit: "literal_selector e key \<longrightarrow>
              cname (form w ! hd nodes) = Some key
              \<and> (\<forall>j<hd nodes. cname (form w ! j) \<noteq> Some key)"
    using literal_first [OF _ assms(1)] by blast
  from key loop pos lit show ?thesis by blast
qed

theorem fill_key_callback_witness:
  "getInputField sample_env (form sample_world) ''username'' = Inr (Exists ''text'' [0, 7])
   \<and> ''text'' \<in> set supportedTypes
   \<and> dispatch sample_env default_settings (form sample_world) ''text'' [0, 7] ''joe''
       = (Inr True, sample_form[0 := (sample_form ! 0)\<lparr>cvalue := ''joe''\<rparr>])
   \<and> [''text'' \<mapsto> throwing_callback] ''text'' = Some throwing_callback
   \<and> throwing_callback (hd [0, 7]) ''joe''
         (sample_form[0 := (sample_form ! 0)\<lparr>cvalue := ''joe''\<rparr>])
       = (sample_form[0 := (sample_form ! 0)\<lparr>cvalue := ''joe''\<rparr>], Some (JStr ''boom''))
   \<and> callable_hasOwnProperty (object_literal [(''username'', ''joe'')])
   \<and> literal_selector sample_env ''username''
   \<and> fill_loop sample_env default_settings [''text'' \<mapsto> throwing_callback]
        (object_literal [(''username'', ''joe'')])
        [Own ''username'' ''joe''] (\<lparr>success = True, errors = []\<rparr>, sample_world)
      = (Inr \<lparr>success = False, errors = [JStr ''boom'']\<rparr>,
         \<lparr>form = sample_form[0 := (sample_form ! 0)\<lparr>cvalue := ''joe''\<rparr>],
          console = [JStr ''boom''], calls = [(''text'', 0, ''joe'')]\<rparr>)"
proof -
  have g: "getInputField sample_env (form sample_world) ''username''
             = Inr (Exists ''text'' [0, 7])"
    by (simp add: model_defs sample_defs)
  have s: "''text'' \<in> set supportedTypes" by (simp add: supportedTypes_def)
  have d: "dispatch sample_env default_settings (form sample_world) ''text'' [0, 7] ''joe''
       = (Inr True, sample_form[0 := (sample_form ! 0)\<lparr>cvalue := ''joe''\<rparr>])"
    by (simp add: dispatch_def fillField_def sample_world_def)
  have c: "[''text'' \<mapsto> throwing_callback] ''text'' = Some throwing_callback" by simp
  have t: "throwing_callback (hd [0, 7]) ''joe''
             (sample_form[0 := (sample_form ! 0)\<lparr>cvalue := ''joe''\<rparr>])
       = (sample_form[0 := (sample_form ! 0)\<lparr>cvalue := ''joe''\<rparr>], Some (JStr ''boom''))"
    by (simp add: throwing_callback_def)
  have h: "callable_hasOwnProperty (object_literal [(''username'', ''joe'')])"
    by (simp add: callable_object_literal)
  have l: "literal_selector sample_env ''username''" by (rule sample_env_username)
  from fill_key_callback [where cbs = "[''text'' \<mapsto> throwing_callback]"
      and cb = throwing_callback and res = "\<lparr>success = True, errors = []\<rparr>" and rest = "[]"
      and d = "object_literal [(''username'', ''joe'')]", OF g s d c t]
    g s d c t h l
  show ?thesis by (simp add: sample_world_def)
qed

text \<open>
  The claim as written fails: the callback registered for \<^verbatim>\<open>text\<close> throws \<^verbatim>\<open>boom\<close>, and
  \<^verbatim>\<open>fill\<close> returns to its caller with a result that holds \<^verbatim>\<open>boom\<close> among its errors.
\<close>

theorem callback_exception_counterexample:
  "fill sample_env default_settings [''text'' \<mapsto> throwing_callback]
     (object_literal [(''username'', ''joe'')]) sample_world
      = (Inr \<lparr>success = False, errors = [JStr ''boom'']\<rparr>,
         \<lparr>form = sample_form[0 := (sample_form ! 0)\<lparr>cvalue := ''joe''\<rparr>],
          console = [JStr ''boom''], calls = [(''text'', 0, ''joe'')]\<rparr>)"
  by (simp add: model_defs sample_defs)

section \<open>Missing fields and empty data\<close>




lemma fill_loop_no_own:
  "callable_hasOwnProperty d \<Longrightarrow> own_keys ps = [] \<Longrightarrow>
   fill_loop e st cbs d ps s = (Inr (fst s), snd s)"
  by (induction ps rule: own_keys.induct) (simp_all add: hasOwnProperty_def)

text \<open>
  Claim C9. When the data has no own key (it is empty, or all that the loop enumerates is
  inherited and \<^verbatim>\<open>data.hasOwnProperty\<close> is the built-in method), \<^verbatim>\<open>fill\<close> returns
  \<^verbatim>\<open>{success: true, errors: []}\<close> and leaves the controls, the console and the callback trace
  as they were, whatever the settings.
\<close>

theorem fill_no_own_keys:
  assumes "own_keys (props d) = []"
    and "props d = [] \<or> callable_hasOwnProperty d"
  shows "fill e st cbs d w = (Inr \<lparr>success = True, errors = []\<rparr>, w)"
  using assms by (auto simp: fill_def fill_loop_no_own)

theorem fill_no_own_keys_witness:
  "own_keys (props (object_literal [])) = []
   \<and> props (object_literal []) = []
   \<and> fill sample_env default_settings [''text'' \<mapsto> throwing_callback]
        (object_literal []) sample_world
       = (Inr \<lparr>success = True, errors = []\<rparr>, sample_world)
   \<and> own_keys (props \<lparr>props = [], object_prototype = False\<rparr>) = []
   \<and> fill sample_env default_settings [''text'' \<mapsto> throwing_callback]
        \<lparr>props = [], object_prototype = False\<rparr> sample_world
       = (Inr \<lparr>success = True, errors = []\<rparr>, sample_world)
   \<and> own_keys (props \<lparr>props = [Inherited ''username'' ''joe''], object_prototype = True\<rparr>) = []
   \<and> callable_hasOwnProperty \<lparr>props = [Inherited ''username'' ''joe''], object_prototype = True\<rparr>
   \<and> fill sample_env default_settings [''text'' \<mapsto> throwing_callback]
        \<lparr>props = [Inherited ''username'' ''joe''], object_prototype = True\<rparr> sample_world
       = (Inr \<lparr>success = True, errors = []\<rparr>, sample_world)"
proof -
  let ?cbs = "[''text'' \<mapsto> throwing_callback]"
  let ?d = "\<lparr>props = [Inherited ''username'' ''joe''], object_prototype = True\<rparr>"
  let ?n = "\<lparr>props = [], object_prototype = False\<rparr>"
  have a: "own_keys (props (object_literal [])) = []" and a': "props (object_literal []) = []"
    by (simp_all add: object_literal_def)
  have n: "own_keys (props ?n) = []" and n': "props ?n = []" by simp_all
  have b: "own_keys (props ?d) = []" by simp
  have c: "callable_hasOwnProperty ?d" by (simp add: callable_hasOwnProperty_def)
  from fill_no_own_keys [OF a, of sample_env default_settings ?cbs sample_world]
    fill_no_own_keys [OF n, of sample_env default_settings ?cbs sample_world]
    fill_no_own_keys [OF b, of sample_env default_settings ?cbs sample_world] a a' n n' b c
  show ?thesis by simp
qed

section \<open>Error texts\<close>

text \<open>
  Claim C8, at its failing input: the select \<^verbatim>\<open>country\<close> has no option \<^verbatim>\<open>XX\<close>, the settings
  are the defaults and the page has no global \<^verbatim>\<open>key\<close>. The error recorded is the
  \<^verbatim>\<open>ReferenceError\<close> of the identifier \<^verbatim>\<open>key\<close>; it names neither the field nor the value.
\<close>

theorem select_error_text:
  "fill sample_env default_settings Map.empty (object_literal [(''country'', ''XX'')])
     sample_world
     = (Inr \<lparr>success = False, errors = [JReferenceError ''key is not defined'']\<rparr>,
        sample_world\<lparr>console := [JReferenceError ''key is not defined'']\<rparr>)"
  by (simp add: model_defs sample_defs)

section \<open>Strict mode\<close>

lemma setting_dom: "dom (setting k v st) = insert k (dom st)"
  by (auto simp: setting_def dom_def split: if_splits)

lemma foldl_setting_dom:
  "dom st \<subseteq> dom (foldl (\<lambda>st (k, v). setting k v st) st cs)"
proof (induction cs arbitrary: st)
  case Nil
  show ?case by simp
next
  case (Cons c cs)
  obtain k v where c: "c = (k, v)" by (cases c)
  have "dom st \<subseteq> dom (setting k v st)" by (auto simp: setting_dom)
  also have "\<dots> \<subseteq> dom (foldl (\<lambda>st (k, v). setting k v st) (setting k v st) cs)"
    by (rule Cons.IH)
  finally show ?case by (simp add: c)
qed

lemma settings_after_dom:
  "{''throwOnMissingField'', ''throwOnUnsupportedType'', ''throwOnFileError'',
    ''throwOnInvalidSelectOption''} \<subseteq> dom (settings_after cs)"
proof -
  have "dom default_settings \<subseteq> dom (settings_after cs)"
    unfolding settings_after_def by (rule foldl_setting_dom)
  moreover have "dom default_settings =
    {''throwOnMissingField'', ''throwOnUnsupportedType'', ''throwOnFileError'',
     ''throwOnInvalidSelectOption''}"
    by (auto simp: default_settings_def)
  ultimately show ?thesis by simp
qed

lemma setting_strict_present:
  "k \<in> dom st \<Longrightarrow> setting ''strict'' v st k = Some v"
  by (auto simp: setting_def)

lemma setting_strict_strict: "setting ''strict'' v st ''strict'' = Some v"
  by (simp add: setting_def)

lemma enabled_strict_upd:
  "k \<noteq> ''strict'' \<Longrightarrow> enabled (st(''strict'' := x)) k = enabled st k"
  by (simp add: enabled_def)

lemma dispatch_strict_inert:
  "dispatch e (st(''strict'' := x)) f ty nodes v = dispatch e st f ty nodes v"
  by (simp add: dispatch_def fillFile_def fillSelect_def enabled_strict_upd)

lemma try_body_strict_inert:
  "try_body e (st(''strict'' := x)) cbs ty nodes v w = try_body e st cbs ty nodes v w"
  by (simp add: try_body_def dispatch_strict_inert)

lemma fill_input_strict_inert:
  "fill_input e (st(''strict'' := x)) cbs key v inp s = fill_input e st cbs key v inp s"
  by (simp add: fill_input_def try_body_strict_inert enabled_strict_upd split: input.splits)

lemma fill_key_strict_inert:
  "fill_key e (st(''strict'' := x)) cbs key v s = fill_key e st cbs key v s"
  by (simp add: fill_key_def fill_input_strict_inert split: sum.splits)

lemma fill_loop_strict_inert:
  "fill_loop e (st(''strict'' := x)) cbs d ps s = fill_loop e st cbs d ps s"
  by (induction ps arbitrary: s)
    (simp_all add: fill_key_strict_inert split: sum.splits prod.splits)

text \<open>
  Claim C7. After any sequence of \<^verbatim>\<open>setting\<close> calls on a fresh filler, \<^verbatim>\<open>setting('strict', v)\<close>
  leaves each of the four recognised settings at \<open>v\<close>, and also stores \<open>v\<close> under the key
  \<^verbatim>\<open>strict\<close>. That entry is inert: \<^verbatim>\<open>fill\<close> behaves the same whatever stands under \<^verbatim>\<open>strict\<close>, or
  nothing.
\<close>

theorem setting_strict:
  "setting ''strict'' v (settings_after cs) ''throwOnMissingField'' = Some v
   \<and> setting ''strict'' v (settings_after cs) ''throwOnUnsupportedType'' = Some v
   \<and> setting ''strict'' v (settings_after cs) ''throwOnFileError'' = Some v
   \<and> setting ''strict'' v (settings_after cs) ''throwOnInvalidSelectOption'' = Some v
   \<and> setting ''strict'' v (settings_after cs) ''strict'' = Some v
   \<and> fill e ((setting ''strict'' v (settings_after cs))(''strict'' := x)) cbs d w
       = fill e (setting ''strict'' v (settings_after cs)) cbs d w"
  using settings_after_dom [of cs]
  by (simp add: setting_strict_present setting_strict_strict fill_def fill_loop_strict_inert)

theorem setting_strict_witness:
  "settings_after [(''throwOnFileError'', True), (''verbose'', True)] ''throwOnFileError''
     = Some True
   \<and> setting ''strict'' False
        (settings_after [(''throwOnFileError'', True), (''verbose'', True)]) ''throwOnFileError''
     = Some False
   \<and> setting ''strict'' False
        (settings_after [(''throwOnFileError'', True), (''verbose'', True)]) ''strict''
     = Some False
   \<and> fst (fill sample_env
        (setting ''strict'' False
           (settings_after [(''throwOnFileError'', True), (''verbose'', True)]))
        Map.empty (object_literal [(''nope'', ''1'')]) sample_world)
     = fst (fill sample_env
        ((setting ''strict'' False
           (settings_after [(''throwOnFileError'', True), (''verbose'', True)]))
           (''strict'' := None))
        Map.empty (object_literal [(''nope'', ''1'')]) sample_world)"
  using setting_strict [of False "[(''throwOnFileError'', True), (''verbose'', True)]"
      sample_env None Map.empty "object_literal [(''nope'', ''1'')]" sample_world]
  by (simp add: settings_after_def setting_def default_settings_def)

section \<open>Checkbox groups\<close>

lemma join_comma_Cons: "join_comma ((c # p) # ps) = c # join_comma (p # ps)"
  by (cases ps) simp_all

lemma join_split_comma: "join_comma (split_comma v) = v"
proof (induction v)
  case Nil
  show ?case by simp
next
  case (Cons c cs)
  show ?case
  proof (cases "split_comma cs")
    case Nil
    with Cons show ?thesis by simp
  next
    case (Cons p ps)
    with Cons.IH show ?thesis by (simp add: join_comma_Cons)
  qed
qed

lemma split_comma_pieces: "p \<in> set (split_comma v) \<Longrightarrow> CHR '','' \<notin> set p"
proof (induction v arbitrary: p)
  case Nil
  then show ?case by simp
next
  case (Cons c cs)
  then show ?case
    by (cases "split_comma cs") (auto split: if_splits)
qed

lemma fillCheckbox_loop_result:
  assumes "\<forall>i\<in>set ns. i < length f"
    and "fillCheckbox_loop vals ns (b, f) = (b', f')"
  shows "length f' = length f
       \<and> (\<forall>j<length f. f' ! j =
             (if j \<in> set ns then (f ! j)\<lparr>cchecked := (cvalue (f ! j) \<in> set vals)\<rparr> else f ! j))
       \<and> b' = (b \<or> (\<exists>i\<in>set ns. cvalue (f ! i) \<in> set vals))"
  using assms
proof (induction ns arbitrary: b f)
  case Nil
  then show ?case by simp
next
  case (Cons i ns)
  let ?c = "cvalue (f ! i) \<in> set vals"
  let ?f1 = "f[i := (f ! i)\<lparr>cchecked := ?c\<rparr>]"
  have i: "i < length f" using Cons.prems(1) by simp
  have r: "fillCheckbox_loop vals ns (if ?c then True else b, ?f1) = (b', f')"
    using Cons.prems(2) by (simp add: Let_def)
  have "\<forall>k\<in>set ns. k < length ?f1" using Cons.prems(1) by simp
  from Cons.IH [OF this r]
  have len: "length f' = length ?f1"
    and nth: "\<forall>j<length ?f1. f' ! j =
             (if j \<in> set ns then (?f1 ! j)\<lparr>cchecked := (cvalue (?f1 ! j) \<in> set vals)\<rparr> else ?f1 ! j)"
    and b': "b' = ((if ?c then True else b) \<or> (\<exists>k\<in>set ns. cvalue (?f1 ! k) \<in> set vals))"
    by blast+
  have cv: "\<And>k. k < length f \<Longrightarrow> cvalue (?f1 ! k) = cvalue (f ! k)"
    using i by (simp add: nth_list_update)
  have "length f' = length f" using len by simp
  moreover have "\<forall>j<length f. f' ! j =
             (if j \<in> set (i # ns) then (f ! j)\<lparr>cchecked := (cvalue (f ! j) \<in> set vals)\<rparr> else f ! j)"
  proof (intro allI impI)
    fix j assume j: "j < length f"
    then have "f' ! j = (if j \<in> set ns then (?f1 ! j)\<lparr>cchecked := (cvalue (?f1 ! j) \<in> set vals)\<rparr> else ?f1 ! j)"
      using nth by simp
    then show "f' ! j =
             (if j \<in> set (i # ns) then (f ! j)\<lparr>cchecked := (cvalue (f ! j) \<in> set vals)\<rparr> else f ! j)"
      using j i by (cases "j = i") (simp_all add: nth_list_update)
  qed
  moreover have "b' = (b \<or> (\<exists>k\<in>set (i # ns). cvalue (f ! k) \<in> set vals))"
  proof -
    have "(\<exists>k\<in>set ns. cvalue (?f1 ! k) \<in> set vals) = (\<exists>k\<in>set ns. cvalue (f ! k) \<in> set vals)"
      using cv Cons.prems(1) by auto
    then show ?thesis using b' by auto
  qed
  ultimately show ?case by blast
qed

text \<open>
  Claim C5. For a checkbox group (the controls that the key resolves to) and a value:
  the value is split at its commas; after \<^verbatim>\<open>fillCheckbox\<close> every control of the group is
  checked exactly when its own value is one of the pieces, and every other control is as
  before; the function returns true exactly when some control of the group ends up checked;
  and the strategy never throws, so that a round in which nothing matches (or for which no
  callback is registered) records no error and only writes the \<^verbatim>\<open>checked\<close> flags. Where the
  engine reads the selector of the key literally, the group is the set of the elements
  whose name is the key.
\<close>

theorem fillCheckbox_correct:
  assumes "getInputField e f key = Inr (Exists ty nodes)"
    and "fillCheckbox f nodes v = (filled, f')"
  shows "join_comma (split_comma v) = v
       \<and> (\<forall>p\<in>set (split_comma v). CHR '','' \<notin> set p)
       \<and> length f' = length f
       \<and> (\<forall>j<length f. f' ! j =
             (if j \<in> set nodes
              then (f ! j)\<lparr>cchecked := (cvalue (f ! j) \<in> set (split_comma v))\<rparr>
              else f ! j))
       \<and> filled = (\<exists>j\<in>set nodes. cchecked (f' ! j))
       \<and> (literal_selector e key \<longrightarrow>
            set nodes = {j. j < length f \<and> cname (f ! j) = Some key})
       \<and> dispatch e st f ''checkbox'' nodes v = (Inr filled, f')
       \<and> (ty = ''checkbox'' \<and> (\<not> filled \<or> cbs ''checkbox'' = None) \<longrightarrow>
            fill_key e st cbs key v (res, \<lparr>form = f, console = out, calls = tr\<rparr>)
              = (Inr res, \<lparr>form = f', console = out, calls = tr\<rparr>))"
proof -
  have q: "querySelectorAll e f key = Inr nodes"
    using getInputField_Exists(1) [OF assms(1)] .
  then have bound: "\<forall>i\<in>set nodes. i < length f"
    using querySelectorAll_bound by blast
  have loop: "fillCheckbox_loop (split_comma v) nodes (False, f) = (filled, f')"
    using assms(2) by (simp add: fillCheckbox_def)
  from fillCheckbox_loop_result [OF bound loop]
  have len: "length f' = length f"
    and nth: "\<forall>j<length f. f' ! j =
             (if j \<in> set nodes
              then (f ! j)\<lparr>cchecked := (cvalue (f ! j) \<in> set (split_comma v))\<rparr> else f ! j)"
    and fl: "filled = (\<exists>i\<in>set nodes. cvalue (f ! i) \<in> set (split_comma v))"
    by simp_all
  have fl': "filled = (\<exists>j\<in>set nodes. cchecked (f' ! j))"
  proof -
    have "\<And>j. j \<in> set nodes \<Longrightarrow>
        cchecked (f' ! j) = (cvalue (f ! j) \<in> set (split_comma v))"
      using nth bound by simp
    then show ?thesis using fl by blast
  qed
  have lit: "literal_selector e key \<longrightarrow>
            set nodes = {j. j < length f \<and> cname (f ! j) = Some key}"
    using literal_nodes [OF _ assms(1)] by blast
  have d: "dispatch e st f ''checkbox'' nodes v = (Inr filled, f')"
    using assms(2) by (simp add: dispatch_def)
  have k: "ty = ''checkbox'' \<and> (\<not> filled \<or> cbs ''checkbox'' = None) \<longrightarrow>
            fill_key e st cbs key v (res, \<lparr>form = f, console = out, calls = tr\<rparr>)
              = (Inr res, \<lparr>form = f', console = out, calls = tr\<rparr>)"
    using assms(1) d
    by (auto simp: fill_key_found fill_input_def try_body_def checkbox_supported)
  show ?thesis
    using join_split_comma split_comma_pieces len nth fl' lit d k by blast
qed

theorem fillCheckbox_correct_witness:
  "getInputField sample_env sample_form ''hobby'' = Inr (Exists ''checkbox'' [1, 2, 3])
   \<and> literal_selector sample_env ''hobby''
   \<and> split_comma ''z'' = [''z'']
   \<and> fillCheckbox sample_form [1, 2, 3] ''z''
       = (False, sample_form[1 := (sample_form ! 1)\<lparr>cchecked := False\<rparr>])
   \<and> fill_key sample_env default_settings [''checkbox'' \<mapsto> throwing_callback] ''hobby'' ''z''
        (\<lparr>success = True, errors = []\<rparr>, \<lparr>form = sample_form, console = [], calls = []\<rparr>)
       = (Inr \<lparr>success = True, errors = []\<rparr>,
          \<lparr>form = sample_form[1 := (sample_form ! 1)\<lparr>cchecked := False\<rparr>],
           console = [], calls = []\<rparr>)
   \<and> split_comma ''a,c'' = [''a'', ''c'']
   \<and> fillCheckbox sample_form [1, 2, 3] ''a,c''
       = (True, sample_form[3 := (sample_form ! 3)\<lparr>cchecked := True\<rparr>])"
proof -
  have g: "getInputField sample_env sample_form ''hobby'' = Inr (Exists ''checkbox'' [1, 2, 3])"
    by (simp add: model_defs sample_defs)
  have l: "literal_selector sample_env ''hobby''" by (rule sample_env_hobby)
  have z: "fillCheckbox sample_form [1, 2, 3] ''z''
       = (False, sample_form[1 := (sample_form ! 1)\<lparr>cchecked := False\<rparr>])"
    by (simp add: fillCheckbox_def sample_form_def)
  have ac: "fillCheckbox sample_form [1, 2, 3] ''a,c''
       = (True, sample_form[3 := (sample_form ! 3)\<lparr>cchecked := True\<rparr>])"
    by (simp add: fillCheckbox_def sample_form_def)
  from fillCheckbox_correct [OF g z, of default_settings
      "[''checkbox'' \<mapsto> throwing_callback]" "\<lparr>success = True, errors = []\<rparr>" "[]" "[]"]
    fillCheckbox_correct [OF g ac, of default_settings
      "[''checkbox'' \<mapsto> throwing_callback]" "\<lparr>success = True, errors = []\<rparr>" "[]" "[]"]
    g l z ac
  show ?thesis by simp
qed

section \<open>The frame of a fill\<close>

lemma shape_length: "shape f' = shape f \<Longrightarrow> length f' = length f"
  unfolding shape_def by (rule map_eq_imp_length_eq)

lemma shape_nth:
  assumes "shape f' = shape f" and "j < length f"
  shows "cname (f' ! j) = cname (f ! j)" and "ctype (f' ! j) = ctype (f ! j)"
proof -
  have "j < length f'" using shape_length [OF assms(1)] assms(2) by simp
  then have "shape f' ! j = (cname (f' ! j), ctype (f' ! j))" by (simp add: shape_def)
  moreover have "shape f ! j = (cname (f ! j), ctype (f ! j))"
    using assms(2) by (simp add: shape_def)
  ultimately show "cname (f' ! j) = cname (f ! j)" and "ctype (f' ! j) = ctype (f ! j)"
    using assms(1) by simp_all
qed

lemma shape_update:
  assumes "cname c = cname (f ! i)" and "ctype c = ctype (f ! i)"
  shows "shape (f[i := c]) = shape f"
proof (cases "i < length f")
  case True
  have "shape (f[i := c]) = (shape f)[i := (cname c, ctype c)]"
    by (simp add: shape_def map_update)
  also have "\<dots> = (shape f)[i := shape f ! i]"
    using True assms by (simp add: shape_def)
  also have "\<dots> = shape f" by simp
  finally show ?thesis .
next
  case False
  then show ?thesis by (simp add: list_update_beyond)
qed

lemma shape_pointwise:
  assumes "length f' = length f"
    and "\<And>j. j < length f \<Longrightarrow> cname (f' ! j) = cname (f ! j) \<and> ctype (f' ! j) = ctype (f ! j)"
  shows "shape f' = shape f"
  using assms by (simp add: shape_def list_eq_iff_nth_eq)

lemma querySelectorAll_shape:
  assumes "literal_selector e key" and "shape f' = shape f"
  shows "querySelectorAll e f' key = querySelectorAll e f key"
proof -
  have len: "length f' = length f" using assms(2) by (rule shape_length)
  have "filter (\<lambda>i. cname (f' ! i) = Some key) [0..<length f]
      = filter (\<lambda>i. cname (f ! i) = Some key) [0..<length f]"
    by (rule filter_cong) (simp_all add: shape_nth(1) [OF assms(2)])
  then show ?thesis
    using literal_query [OF assms(1), of f] literal_query [OF assms(1), of f'] len by simp
qed

lemma getInputField_shape:
  assumes "literal_selector e key" and "shape f' = shape f"
  shows "getInputField e f' key = getInputField e f key"
proof (cases "querySelectorAll e f key")
  case (Inl err)
  then show ?thesis
    using querySelectorAll_shape [OF assms] by (simp add: getInputField_def)
next
  case (Inr ns)
  show ?thesis
  proof (cases ns)
    case Nil
    then show ?thesis
      using Inr querySelectorAll_shape [OF assms] by (simp add: getInputField_def)
  next
    case (Cons i rest)
    then have "i \<in> set ns" by simp
    then have "i < length f" using Inr by (rule querySelectorAll_bound [rotated])
    then have "ctype (f' ! i) = ctype (f ! i)" using shape_nth(2) [OF assms(2)] by simp
    then show ?thesis
      using Inr Cons querySelectorAll_shape [OF assms] by (simp add: getInputField_def)
  qed
qed

lemma allowed_shape:
  "literal_selector e key \<Longrightarrow> shape f' = shape f \<Longrightarrow> allowed e f' key = allowed e f key"
  using getInputField_shape [of e key f' f] by (simp add: allowed_def)

lemma allowed_nodes:
  assumes "j \<in> allowed e f key"
  obtains ty nodes where "getInputField e f key = Inr (Exists ty nodes)" and "j \<in> set nodes"
    and "ty = ''checkbox'' \<or> ty = ''radio'' \<or> j = hd nodes"
proof (cases "getInputField e f key")
  case (Inl err)
  with assms show ?thesis by (simp add: allowed_def)
next
  case (Inr inp)
  show ?thesis
  proof (cases inp)
    case NotExists
    with Inr assms show ?thesis by (simp add: allowed_def)
  next
    case (Exists ty nodes)
    have ne: "nodes \<noteq> []"
      using getInputField_Exists(2) [of e f key ty nodes] Inr Exists by simp
    from assms Inr Exists ne have "j \<in> set nodes"
      and "ty = ''checkbox'' \<or> ty = ''radio'' \<or> j = hd nodes"
      by (auto simp: allowed_def split: if_splits)
    with Inr Exists that show ?thesis by simp
  qed
qed

lemma allowed_name:
  assumes "literal_selector e key" and "j \<in> allowed e f key"
  shows "j < length f \<and> cname (f ! j) = Some key"
proof -
  from assms(2) obtain ty nodes where g: "getInputField e f key = Inr (Exists ty nodes)"
    and j: "j \<in> set nodes"
    by (rule allowed_nodes)
  from literal_nodes [OF assms(1) g] j show ?thesis by simp
qed

lemma unchanged_refl: "unchanged_outside S f f"
  by (simp add: unchanged_outside_def)

lemma unchanged_mono: "unchanged_outside S f f' \<Longrightarrow> S \<subseteq> T \<Longrightarrow> unchanged_outside T f f'"
  by (auto simp: unchanged_outside_def)

lemma unchanged_trans:
  assumes "unchanged_outside S f f'" and "unchanged_outside T f' f''"
  shows "unchanged_outside (S \<union> T) f f''"
proof -
  have s1: "shape f' = shape f" and s2: "shape f'' = shape f'"
    using assms by (simp_all add: unchanged_outside_def)
  have len: "length f' = length f" using s1 by (rule shape_length)
  have "\<forall>j<length f. j \<notin> S \<union> T \<longrightarrow> f'' ! j = f ! j"
    using assms len by (simp add: unchanged_outside_def)
  then show ?thesis using s1 s2 by (simp add: unchanged_outside_def)
qed

lemma unchanged_update:
  assumes "cname c = cname (f ! i)" and "ctype c = ctype (f ! i)"
  shows "unchanged_outside {i} f (f[i := c])"
  using assms by (simp add: unchanged_outside_def shape_update)

lemma fillRadio_loop_as_checkbox:
  "fillRadio_loop v ns s = fillCheckbox_loop [v] ns s"
proof (induction ns arbitrary: s)
  case Nil
  show ?case by (cases s) simp
next
  case (Cons i ns)
  obtain b f where s: "s = (b, f)" by (cases s)
  have "(v = cvalue (f ! i)) = (cvalue (f ! i) \<in> set [v])" by auto
  then show ?case using Cons.IH by (simp add: s Let_def)
qed

lemma fillCheckbox_loop_frame:
  assumes "\<forall>i\<in>set ns. i < length f"
    and "fillCheckbox_loop vals ns (b, f) = (b', f')"
  shows "unchanged_outside (set ns) f f'"
proof -
  from fillCheckbox_loop_result [OF assms]
  have len: "length f' = length f"
    and nth: "\<forall>j<length f. f' ! j =
             (if j \<in> set ns then (f ! j)\<lparr>cchecked := (cvalue (f ! j) \<in> set vals)\<rparr> else f ! j)"
    by simp_all
  have "shape f' = shape f"
    using len nth by (intro shape_pointwise) simp_all
  then show ?thesis using nth by (simp add: unchanged_outside_def)
qed

lemma fillSelect_frame:
  assumes "i < length f"
    and "\<forall>h. jquery e = Some h \<longrightarrow> local_handler h"
    and "fillSelect e st f i v = (r, f1)"
  shows "unchanged_outside {i} f f1"
proof (cases "v \<in> set (coptions (f ! i))")
  case False
  with assms(3) have "f1 = f"
    by (auto simp: fillSelect_def split: if_splits option.splits)
  then show ?thesis by (simp add: unchanged_refl)
next
  case True
  let ?f0 = "f[i := (f ! i)\<lparr>cvalue := v\<rparr>]"
  have u0: "unchanged_outside {i} f ?f0" by (rule unchanged_update) simp_all
  show ?thesis
  proof (cases "jquery e")
    case None
    with True assms(3) have "f1 = ?f0" by (simp add: fillSelect_def)
    with u0 show ?thesis by simp
  next
    case (Some h)
    with True assms(3) have f1: "f1 = fst (h i ?f0)"
      by (auto simp: fillSelect_def split: prod.splits option.splits)
    have "local_handler h" using assms(2) Some by simp
    moreover have "i < length ?f0" using assms(1) by simp
    ultimately obtain c where c: "fst (h i ?f0) = ?f0[i := c]"
      "cname c = cname (?f0 ! i)" "ctype c = ctype (?f0 ! i)"
      unfolding local_handler_def by blast
    have "unchanged_outside {i} ?f0 (?f0[i := c])"
      using c(2,3) by (rule unchanged_update)
    with u0 have "unchanged_outside ({i} \<union> {i}) f (?f0[i := c])"
      by (rule unchanged_trans)
    then show ?thesis using f1 c(1) by simp
  qed
qed

lemma dispatch_frame:
  assumes "getInputField e f key = Inr (Exists ty nodes)"
    and "\<forall>h. jquery e = Some h \<longrightarrow> local_handler h"
    and "dispatch e st f ty nodes v = (r, f1)"
  shows "unchanged_outside (allowed e f key) f f1"
proof -
  have q: "querySelectorAll e f key = Inr nodes" and hd: "hd nodes < length f"
    using getInputField_Exists(1,4) [OF assms(1)] by simp_all
  have bound: "\<forall>i\<in>set nodes. i < length f"
    using q querySelectorAll_bound by blast
  consider (a) "ty = ''file''" | (b) "ty = ''checkbox''" | (c) "ty = ''radio''"
    | (d) "ty = ''select-one''"
    | (other) "ty \<noteq> ''file''" "ty \<noteq> ''checkbox''" "ty \<noteq> ''radio''" "ty \<noteq> ''select-one''"
    by blast
  then show ?thesis
  proof cases
    case a
    with assms(3) have "f1 = f" by (simp add: dispatch_def)
    then show ?thesis by (simp add: unchanged_refl)
  next
    case b
    with assms(3) obtain fl where "fillCheckbox_loop (split_comma v) nodes (False, f) = (fl, f1)"
      by (auto simp: dispatch_def fillCheckbox_def split: prod.splits)
    from fillCheckbox_loop_frame [OF bound this] show ?thesis
      using assms(1) b by (simp add: allowed_def)
  next
    case c
    with assms(3) obtain fl where "fillCheckbox_loop [v] nodes (False, f) = (fl, f1)"
      by (auto simp: dispatch_def fillRadio_def fillRadio_loop_as_checkbox split: prod.splits)
    from fillCheckbox_loop_frame [OF bound this] show ?thesis
      using assms(1) c by (simp add: allowed_def)
  next
    case d
    with assms(3) have "fillSelect e st f (hd nodes) v = (r, f1)" by (simp add: dispatch_def)
    from fillSelect_frame [OF hd assms(2) this] show ?thesis
      using assms(1) d by (simp add: allowed_def)
  next
    case other
    with assms(3) have "f1 = f[hd nodes := (f ! hd nodes)\<lparr>cvalue := v\<rparr>]"
      by (auto simp: dispatch_def fillField_def)
    moreover have "unchanged_outside {hd nodes} f (f[hd nodes := (f ! hd nodes)\<lparr>cvalue := v\<rparr>])"
      by (rule unchanged_update) simp_all
    ultimately show ?thesis using assms(1) other by (simp add: allowed_def)
  qed
qed

lemma hd_allowed:
  assumes "getInputField e f key = Inr (Exists ty nodes)"
  shows "hd nodes \<in> allowed e f key"
  using assms getInputField_Exists(2) [OF assms] by (simp add: allowed_def)

lemma local_handlerD:
  assumes "local_handler h" and "i < length f"
  shows "\<exists>c. fst (h i f) = f[i := c] \<and> cname c = cname (f ! i) \<and> ctype c = ctype (f ! i)"
  using assms unfolding local_handler_def by blast

lemma try_body_frame:
  assumes "getInputField e (form w) key = Inr (Exists ty nodes)"
    and "local_user_code e cbs"
  shows "unchanged_outside (allowed e (form w) key) (form w)
           (form (snd (try_body e st cbs ty nodes v w)))"
proof -
  obtain r f1 where d: "dispatch e st (form w) ty nodes v = (r, f1)"
    by (cases "dispatch e st (form w) ty nodes v")
  have jq: "\<forall>h. jquery e = Some h \<longrightarrow> local_handler h"
    using assms(2) by (simp add: local_user_code_def)
  have u1: "unchanged_outside (allowed e (form w) key) (form w) f1"
    using dispatch_frame [OF assms(1) jq d] .
  have after:
    "\<And>cb. cbs ty = Some cb \<Longrightarrow>
       unchanged_outside (allowed e (form w) key) (form w) (fst (cb (hd nodes) v f1))"
  proof -
    fix cb assume cb: "cbs ty = Some cb"
    have "local_handler (\<lambda>i. cb i v)"
      using assms(2) cb by (simp add: local_user_code_def)
    moreover have "hd nodes < length f1"
      using getInputField_Exists(4) [OF assms(1)] u1 shape_length [of f1 "form w"]
      by (simp add: unchanged_outside_def)
    ultimately obtain c where c: "fst (cb (hd nodes) v f1) = f1[hd nodes := c]"
      "cname c = cname (f1 ! hd nodes)" "ctype c = ctype (f1 ! hd nodes)"
      using local_handlerD [of "\<lambda>i. cb i v" "hd nodes" f1] by auto
    have "unchanged_outside {hd nodes} f1 (f1[hd nodes := c])"
      using c(2,3) by (rule unchanged_update)
    with u1 have "unchanged_outside (allowed e (form w) key \<union> {hd nodes}) (form w)
        (f1[hd nodes := c])"
      by (rule unchanged_trans)
    moreover have "allowed e (form w) key \<union> {hd nodes} = allowed e (form w) key"
      using hd_allowed [OF assms(1)] by auto
    ultimately show "unchanged_outside (allowed e (form w) key) (form w)
        (fst (cb (hd nodes) v f1))"
      using c(1) by simp
  qed
  show ?thesis
  proof (cases r)
    case (Inl err)
    then have "form (snd (try_body e st cbs ty nodes v w)) = f1"
      by (simp add: try_body_def d)
    with u1 show ?thesis by simp
  next
    case (Inr filled)
    show ?thesis
    proof (cases "if filled then cbs ty else None")
      case None
      then have "form (snd (try_body e st cbs ty nodes v w)) = f1"
        by (simp add: try_body_def d Inr)
      with u1 show ?thesis by simp
    next
      case (Some cb)
      then have cb: "cbs ty = Some cb" by (simp split: if_splits)
      obtain f2 thrown where r2: "cb (hd nodes) v f1 = (f2, thrown)"
        by (cases "cb (hd nodes) v f1")
      have "form (snd (try_body e st cbs ty nodes v w)) = fst (cb (hd nodes) v f1)"
        by (simp add: try_body_def d Inr Some r2)
      with after [OF cb] show ?thesis by simp
    qed
  qed
qed

lemma record_error_form: "form (snd (record_error b err s)) = form (snd s)"
  by (simp add: record_error_def split: prod.splits)

lemma fill_input_frame:
  assumes "local_user_code e cbs"
    and "getInputField e (form (snd s)) key = Inr inp"
  shows "unchanged_outside (allowed e (form (snd s)) key) (form (snd s))
           (form (snd (fill_input e st cbs key v inp s)))"
proof (cases inp)
  case NotExists
  then show ?thesis by (simp add: fill_input_def record_error_form unchanged_refl)
next
  case (Exists ty nodes)
  show ?thesis
  proof (cases "ty \<in> set supportedTypes")
    case False
    with Exists show ?thesis by (simp add: fill_input_def record_error_form unchanged_refl)
  next
    case True
    obtain thrown w' where t: "try_body e st cbs ty nodes v (snd s) = (thrown, w')"
      by (cases "try_body e st cbs ty nodes v (snd s)")
    have g: "getInputField e (form (snd s)) key = Inr (Exists ty nodes)"
      using assms(2) Exists by simp
    have "form (snd (fill_input e st cbs key v inp s)) = form w'"
      using Exists True t
      by (cases thrown) (simp_all add: fill_input_def record_error_def)
    then show ?thesis using try_body_frame [OF g assms(1), of st v] t by simp
  qed
qed

lemma fill_key_frame:
  assumes "local_user_code e cbs"
  shows "unchanged_outside (allowed e (form (snd s)) key) (form (snd s))
           (form (snd (fill_key e st cbs key v s)))"
proof (cases "getInputField e (form (snd s)) key")
  case (Inl err)
  then show ?thesis by (simp add: fill_key_def unchanged_refl)
next
  case (Inr inp)
  from fill_input_frame [OF assms Inr, of st v] show ?thesis
    by (simp add: fill_key_found [OF Inr])
qed

lemma fill_loop_frame:
  assumes "local_user_code e cbs"
    and "\<forall>key\<in>set (own_keys ps). literal_selector e key"
  shows "unchanged_outside (\<Union>key\<in>set (own_keys ps). allowed e (form (snd s)) key)
           (form (snd s)) (form (snd (fill_loop e st cbs d ps s)))"
  using assms(2)
proof (induction ps arbitrary: s)
  case Nil
  show ?case by (simp add: unchanged_refl)
next
  case (Cons p rest)
  show ?case
  proof (cases "hasOwnProperty d p")
    case (Inl err)
    then have "form (snd (fill_loop e st cbs d (p # rest) s)) = form (snd s)" by simp
    then show ?thesis
      using unchanged_refl [of "{}" "form (snd s)"] by (auto intro: unchanged_mono)
  next
    case (Inr own)
    then have own: "own = is_own p"
      by (simp add: hasOwnProperty_def split: if_splits)
    show ?thesis
    proof (cases p)
      case (Inherited key v)
      with Inr own have "fill_loop e st cbs d (p # rest) s = fill_loop e st cbs d rest s"
        by simp
      moreover have "own_keys (p # rest) = own_keys rest" using Inherited by simp
      ultimately show ?thesis using Cons.IH [of s] Cons.prems by simp
    next
      case (Own key v)
      let ?s1 = "fill_key e st cbs key v s"
      let ?R = "\<Union>k\<in>set (own_keys rest). allowed e (form (snd s)) k"
      have keys: "own_keys (p # rest) = key # own_keys rest" using Own by simp
      have lits: "\<forall>k\<in>set (own_keys rest). literal_selector e k"
        using Cons.prems keys by simp
      have u1: "unchanged_outside (allowed e (form (snd s)) key) (form (snd s))
                  (form (snd ?s1))"
        using fill_key_frame [OF assms(1)] .
      obtain r1 w1 where k: "fill_key e st cbs key v s = (r1, w1)"
        by (cases "fill_key e st cbs key v s")
      have h: "hasOwnProperty d p = Inr True" using Inr own Own by simp
      show ?thesis
      proof (cases r1)
        case (Inl err)
        then have "fill_loop e st cbs d (p # rest) s = (Inl err, snd ?s1)"
          using h k Own by simp
        then have "form (snd (fill_loop e st cbs d (p # rest) s)) = form (snd ?s1)"
          by simp
        moreover have "allowed e (form (snd s)) key
            \<subseteq> (\<Union>k\<in>set (own_keys (p # rest)). allowed e (form (snd s)) k)"
          using keys by simp
        ultimately show ?thesis using unchanged_mono [OF u1] by simp
      next
        case (Inr res1)
        then have step: "fill_loop e st cbs d (p # rest) s
            = fill_loop e st cbs d rest (res1, snd ?s1)"
          using h k Own by simp
        have sh: "shape (form (snd ?s1)) = shape (form (snd s))"
          using u1 by (simp add: unchanged_outside_def)
        have eq: "(\<Union>k\<in>set (own_keys rest). allowed e (form (snd ?s1)) k) = ?R"
          using allowed_shape [OF _ sh] lits by simp
        have "unchanged_outside
                (\<Union>k\<in>set (own_keys rest). allowed e (form (snd (res1, snd ?s1))) k)
                (form (snd (res1, snd ?s1)))
                (form (snd (fill_loop e st cbs d rest (res1, snd ?s1))))"
          using lits by (rule Cons.IH)
        then have u2: "unchanged_outside ?R (form (snd ?s1))
                (form (snd (fill_loop e st cbs d rest (res1, snd ?s1))))"
          using eq by simp
        have "unchanged_outside (allowed e (form (snd s)) key \<union> ?R) (form (snd s))
                (form (snd (fill_loop e st cbs d rest (res1, snd ?s1))))"
          using u1 u2 by (rule unchanged_trans)
        moreover have "(\<Union>k\<in>set (own_keys (p # rest)). allowed e (form (snd s)) k)
            = allowed e (form (snd s)) key \<union> ?R"
          using keys by simp
        ultimately show ?thesis using step by simp
      qed
    qed
  qed
qed

text \<open>
  Claim C10, as amended. Let the engine read the selector of every own key of the data
  literally, and let the user code (callbacks, jQuery change handlers) write only to the
  control it is handed. Then a call of \<^verbatim>\<open>fill\<close>, whether it returns or throws, keeps the
  number of elements, and leaves an element as it was when its name is no own key of the
  data, or when the group of its name resolves to a type other than \<^verbatim>\<open>checkbox\<close> and
  \<^verbatim>\<open>radio\<close> and the element is not the first one of that group.
\<close>

theorem fill_frame:
  assumes "local_user_code e cbs"
    and "\<forall>key\<in>set (own_keys (props d)). literal_selector e key"
    and "j < length (form w)"
    and "cname (form w ! j) \<notin> Some ` set (own_keys (props d))
       \<or> (\<exists>key ty nodes. cname (form w ! j) = Some key
            \<and> getInputField e (form w) key = Inr (Exists ty nodes)
            \<and> ty \<noteq> ''checkbox'' \<and> ty \<noteq> ''radio'' \<and> j \<noteq> hd nodes)"
  shows "length (form (snd (fill e st cbs d w))) = length (form w)
       \<and> form (snd (fill e st cbs d w)) ! j = form w ! j"
proof -
  let ?f' = "form (snd (fill e st cbs d w))"
  let ?A = "\<Union>key\<in>set (own_keys (props d)). allowed e (form w) key"
  have u: "unchanged_outside ?A (form w) ?f'"
    using fill_loop_frame [OF assms(1,2),
        where s = "(\<lparr>success = True, errors = []\<rparr>, w)" and st = st and d = d]
    by (simp add: fill_def)
  have "j \<notin> ?A"
  proof
    assume "j \<in> ?A"
    then obtain key where k: "key \<in> set (own_keys (props d))"
      and a: "j \<in> allowed e (form w) key"
      by blast
    have lit: "literal_selector e key" using assms(2) k by simp
    from allowed_name [OF lit a] have nm: "cname (form w ! j) = Some key" by simp
    with k assms(4) obtain ty nodes where
      g: "getInputField e (form w) key = Inr (Exists ty nodes)"
      and t: "ty \<noteq> ''checkbox''" "ty \<noteq> ''radio''" and h: "j \<noteq> hd nodes"
      by auto
    from a g t have "j = hd nodes" by (simp add: allowed_def)
    with h show False by simp
  qed
  with u assms(3) have "?f' ! j = form w ! j" by (simp add: unchanged_outside_def)
  moreover have "length ?f' = length (form w)"
    using u shape_length [of ?f' "form w"] by (simp add: unchanged_outside_def)
  ultimately show ?thesis by simp
qed

lemma marking_callback_local: "local_user_code sample_env [''text'' \<mapsto> marking_callback]"
proof -
  have "local_handler (\<lambda>i. marking_callback i v)" for v
    unfolding local_handler_def marking_callback_def
  proof (intro allI impI)
    fix i and f :: "control list"
    assume "i < length f"
    have "fst (f[i := (f ! i)\<lparr>cchecked := True\<rparr>], None :: jsval option)
            = f[i := (f ! i)\<lparr>cchecked := True\<rparr>]
          \<and> cname ((f ! i)\<lparr>cchecked := True\<rparr>) = cname (f ! i)
          \<and> ctype ((f ! i)\<lparr>cchecked := True\<rparr>) = ctype (f ! i)"
      by simp
    then show "\<exists>c. fst (f[i := (f ! i)\<lparr>cchecked := True\<rparr>], None :: jsval option) = f[i := c]
          \<and> cname c = cname (f ! i) \<and> ctype c = ctype (f ! i)"
      by (rule exI)
  qed
  then show ?thesis
    by (simp add: local_user_code_def sample_env_def)
qed

theorem fill_frame_witness:
  "local_user_code sample_env [''text'' \<mapsto> marking_callback]
   \<and> literal_selector sample_env ''username'' \<and> literal_selector sample_env ''hobby''
   \<and> 7 < length (form sample_world)
   \<and> cname (form sample_world ! 7) = Some ''username''
   \<and> getInputField sample_env (form sample_world) ''username'' = Inr (Exists ''text'' [0, 7])
   \<and> 7 \<noteq> hd [0, 7 :: nat]
   \<and> form (snd (fill sample_env default_settings [''text'' \<mapsto> marking_callback]
         (object_literal [(''username'', ''joe''), (''hobby'', ''b'')]) sample_world)) ! 7
       = form sample_world ! 7
   \<and> 4 < length (form sample_world)
   \<and> cname (form sample_world ! 4) = Some ''country''
   \<and> form (snd (fill sample_env default_settings [''text'' \<mapsto> marking_callback]
         (object_literal [(''username'', ''joe''), (''hobby'', ''b'')]) sample_world)) ! 4
       = form sample_world ! 4
   \<and> form (snd (fill sample_env default_settings [''text'' \<mapsto> marking_callback]
         (object_literal [(''username'', ''joe''), (''hobby'', ''b'')]) sample_world)) ! 0
       = \<lparr>cname = Some ''username'', ctype = ''text'', cvalue = ''joe'', cchecked = True,
          coptions = []\<rparr>"
proof -
  let ?cbs = "[''text'' \<mapsto> marking_callback]"
  let ?d = "object_literal [(''username'', ''joe''), (''hobby'', ''b'')]"
  have l: "local_user_code sample_env ?cbs" by (rule marking_callback_local)
  have ks: "own_keys (props ?d) = [''username'', ''hobby'']"
    by (simp add: object_literal_def)
  have lu: "literal_selector sample_env ''username''" by (rule sample_env_username)
  have lh: "literal_selector sample_env ''hobby''" by (rule sample_env_hobby)
  have lits: "\<forall>key\<in>set (own_keys (props ?d)). literal_selector sample_env key"
    using lu lh by (simp add: ks)
  have b7: "7 < length (form sample_world)" and b4: "4 < length (form sample_world)"
    by (simp_all add: sample_defs)
  have n7: "cname (form sample_world ! 7) = Some ''username''"
    and n4: "cname (form sample_world ! 4) = Some ''country''"
    by (simp_all add: sample_defs)
  have g: "getInputField sample_env (form sample_world) ''username''
             = Inr (Exists ''text'' [0, 7])"
    by (simp add: model_defs sample_defs)
  have h: "7 \<noteq> hd [0, 7 :: nat]" by simp
  have c7: "cname (form sample_world ! 7) \<notin> Some ` set (own_keys (props ?d))
       \<or> (\<exists>key ty nodes. cname (form sample_world ! 7) = Some key
            \<and> getInputField sample_env (form sample_world) key = Inr (Exists ty nodes)
            \<and> ty \<noteq> ''checkbox'' \<and> ty \<noteq> ''radio'' \<and> 7 \<noteq> hd nodes)"
    using n7 g h by simp
  have c4: "cname (form sample_world ! 4) \<notin> Some ` set (own_keys (props ?d))
       \<or> (\<exists>key ty nodes. cname (form sample_world ! 4) = Some key
            \<and> getInputField sample_env (form sample_world) key = Inr (Exists ty nodes)
            \<and> ty \<noteq> ''checkbox'' \<and> ty \<noteq> ''radio'' \<and> 4 \<noteq> hd nodes)"
    using n4 by (simp add: ks)
  have z: "form (snd (fill sample_env default_settings ?cbs ?d sample_world)) ! 0
       = \<lparr>cname = Some ''username'', ctype = ''text'', cvalue = ''joe'', cchecked = True,
          coptions = []\<rparr>"
    by (simp add: model_defs sample_defs)
  from fill_frame [OF l lits b7 c7, of default_settings]
    fill_frame [OF l lits b4 c4, of default_settings]
    l lu lh b7 b4 n7 n4 g h z
  show ?thesis by simp
qed

text \<open>
  The claim as written fails in two ways. A key can reach elements of another name: the
  selector built from \<^verbatim>\<open>x"],[name="username\<close> is the list \<^verbatim>\<open>[name="x"],[name="username"]\<close>, so
  \<^verbatim>\<open>fill\<close> writes \<^verbatim>\<open>joe\<close> to the first \<^verbatim>\<open>username\<close> element although \<^verbatim>\<open>username\<close> is no key of
  the data. And a callback is free in what it writes: the one registered for \<^verbatim>\<open>text\<close> here
  clears the last element of the form, the second \<^verbatim>\<open>username\<close> element, which is not the
  first one of its group.
\<close>

theorem fill_frame_counterexample:
  "own_keys (props (object_literal [(injecting_key, ''joe'')])) = [injecting_key]
   \<and> cname (form sample_world ! 0) = Some ''username''
   \<and> ''username'' \<noteq> injecting_key
   \<and> cvalue (form sample_world ! 0) = []
   \<and> cvalue (form (snd (fill sample_env default_settings Map.empty
         (object_literal [(injecting_key, ''joe'')]) sample_world)) ! 0) = ''joe''
   \<and> getInputField sample_env (form sample_world) ''username'' = Inr (Exists ''text'' [0, 7])
   \<and> cname (form sample_world ! 7) = Some ''username''
   \<and> cvalue (form sample_world ! 7) = ''old''
   \<and> cvalue (form (snd (fill sample_env default_settings [''text'' \<mapsto> wandering_callback]
         (object_literal [(''username'', ''joe'')]) sample_world)) ! 7) = []"
  by (simp add: model_defs sample_defs)

end
